theory Spec2Isabelle
  imports Complex_Main "HOL-Library.Char_ord" "HOL-Library.List_Lexorder"
    "HOL-Library.Product_Lexorder"
begin

section \<open>Common modelling conventions\<close>

text \<open>
  The pipeline is written in Python over pandas data frames.  A data frame is modelled
  as the list of its rows (in row order), a row as a record of the columns the code
  reads, a nullable column as an \<open>option\<close> (\<open>None\<close> is NaN / missing), a Python
  \<open>dict\<close> as an association list in insertion order, a Python \<open>set\<close> of integers as an
  \<open>int set\<close>, and a raised exception as the left injection of a sum type.  Where the code
  iterates over a \<open>set\<close> the model goes through it in increasing order; that order only
  decides the relative order of output rows whose sort keys are equal.

  \<open>DataFrame.sort_values\<close> is modelled as a stable sort on the tuple of its keys.  On
  several keys pandas sorts stably; on a single key its default algorithm may reorder
  rows with equal keys, and the general theorems below hold for every order of such rows.
  Percentages and ratings are floating-point numbers in the code and exact rationals here.
\<close>

datatype py_error = ValueError | KeyError | IndexError

text \<open>
  \<open>DataFrame.sort_values\<close> on a descending key: pandas reverses the rows, sorts
  ascending and reverses the result, which keeps tied rows in their original order.
\<close>

definition sort_desc :: "('a \<Rightarrow> 'k::linorder) \<Rightarrow> 'a list \<Rightarrow> 'a list" where
  "sort_desc f xs = rev (sort_key f (rev xs))"

text \<open>
  A Python \<open>dict\<close> keeps its keys in insertion order: assigning to a key that is present
  replaces the value in place, assigning to a new key appends the entry.
\<close>

fun dict_set :: "('k \<times> 'v) list \<Rightarrow> 'k \<Rightarrow> 'v \<Rightarrow> ('k \<times> 'v) list" where
  "dict_set [] k v = [(k, v)]"
| "dict_set ((k', v') # d) k v =
     (if k' = k then (k, v) # d else (k', v') # dict_set d k v)"

text \<open>
  A row of the play-by-play table, with the columns the transformers read.
  \<open>gameClock_seconds\<close> stands for \<open>_game_clock_to_seconds(gameClock)\<close>, the "MM:SS" display
  clock converted to seconds remaining in the period (0 for an unreadable clock);
  \<open>is_rim_shot\<close> is the column that \<open>calculate_shot_distances\<close> adds.  Team and player ids
  are whole numbers; a missing value (NaN) of a nullable column is \<open>None\<close>.
\<close>

record pbp_row =
  gameId :: string
  period :: int
  gameClock :: string
  gameClock_seconds :: int
  wallClockInt :: int
  pbpOrder :: int
  msgType :: int
  team :: "string option"
  nbaTeamId :: "int option"
  offTeamId :: "int option"
  defTeamId :: "int option"
  playerId1 :: "int option"
  playerId2 :: "int option"
  playerId3 :: "int option"
  pts :: int
  is_rim_shot :: bool

lemma map_of_dict_set: "map_of (dict_set d k v) = (map_of d)(k \<mapsto> v)"
  by (induction d) (auto simp: fun_eq_iff)

lemma keys_dict_set:
  "map fst (dict_set d k v) = (if k \<in> set (map fst d) then map fst d else map fst d @ [k])"
proof (induction d)
  case Nil
  then show ?case by simp
next
  case (Cons a d)
  obtain k' v' where a: "a = (k', v')" by (cases a)
  show ?case
  proof (cases "k' = k")
    case True
    then show ?thesis by (simp add: a)
  next
    case False
    then show ?thesis using Cons by (simp add: a)
  qed
qed

lemma distinct_dict_set: "distinct (map fst d) \<Longrightarrow> distinct (map fst (dict_set d k v))"
  by (simp add: keys_dict_set)

lemma distinct_foldl_dict_set:
  "distinct (map fst d) \<Longrightarrow> distinct (map fst (foldl (\<lambda>acc x. dict_set acc (f x) (g x)) d xs))"
  by (induction xs arbitrary: d) (simp_all add: distinct_dict_set)

text \<open>A neutral row, from which the concrete events below are written.\<close>

definition blank_event :: pbp_row where
  "blank_event =
     \<lparr>gameId = ''0022400001'', period = 1, gameClock = ''12:00'', gameClock_seconds = 720,
      wallClockInt = 0, pbpOrder = 0, msgType = 0, team = None, nbaTeamId = None,
      offTeamId = None, defTeamId = None, playerId1 = None, playerId2 = None,
      playerId3 = None, pts = 0, is_rim_shot = False\<rparr>"

section \<open>Possession segmentation: \<open>lineups/transformers/possessions.py\<close>\<close>

text \<open>
  A row of the prepared play-by-play table: the input row with the columns that
  \<open>_prepare_pbp_data\<close> and \<open>_clean_team_ids\<close> add.
\<close>

record clean_row = pbp_row +
  time_elapsed :: int
  offTeamId_clean :: "int option"
  defTeamId_clean :: "int option"

text \<open>
  A possession-ending event (\<open>_create_possession_ending\<close>), and a possession as
  \<open>_build_possession_timeline\<close> emits it; \<open>_calculate_possession_metrics\<close> adds the duration
  and the points.  End types are the strings of the source.
\<close>

record ending =
  e_period :: int
  e_end_time_seconds :: int
  e_time_elapsed :: int
  e_end_type :: string
  ending_team :: "int option"
  pbp_idx :: nat

record possession =
  possession_id :: int
  p_period :: int
  start_time_seconds :: int
  end_time_seconds :: int
  off_team :: int
  def_team :: int
  end_type :: string
  pbp_end_idx :: nat

record scored_possession = possession +
  duration_seconds :: int
  points_scored :: int

text \<open>Applying a function that may raise to every row: the first error aborts.\<close>

fun map_err :: "('a \<Rightarrow> 'e + 'b) \<Rightarrow> 'a list \<Rightarrow> 'e + 'b list" where
  "map_err f [] = Inr []"
| "map_err f (x # xs) =
     (case f x of
        Inl e \<Rightarrow> Inl e
      | Inr y \<Rightarrow> (case map_err f xs of Inl e \<Rightarrow> Inl e | Inr ys \<Rightarrow> Inr (y # ys)))"

text \<open>\<open>==\<close> on two nullable player ids: NaN is equal to nothing, not even to NaN.\<close>

fun py_eq :: "int option \<Rightarrow> int option \<Rightarrow> bool" where
  "py_eq (Some a) (Some b) = (a = b)"
| "py_eq _ _ = False"

text \<open>\<open>pbp.groupby('period')['game_clock_seconds'].max()\<close>, read at one period.\<close>

definition max_period_time :: "pbp_row list \<Rightarrow> int \<Rightarrow> int" where
  "max_period_time pbp p = Max (set (map gameClock_seconds (filter (\<lambda>r. period r = p) pbp)))"

text \<open>
  \<open>_clean_team_ids\<close>.  The valid teams are the distinct positive \<open>offTeamId\<close> values, or the
  distinct non-null \<open>nbaTeamId\<close> values when those are not exactly two, in increasing order.
  The expression for \<open>defTeamId_clean\<close> indexes \<open>valid_teams[0]\<close> for every row and
  \<open>valid_teams[1]\<close> for a row of the first team, so it raises \<open>IndexError\<close> on too short a
  list.
\<close>

definition valid_teams_of :: "pbp_row list \<Rightarrow> int list" where
  "valid_teams_of pbp =
     (let valid_teams = set (List.map_filter
                               (\<lambda>r. case offTeamId r of
                                        Some t \<Rightarrow> if t > 0 then Some t else None
                                      | None \<Rightarrow> None) pbp)
      in if card valid_teams \<noteq> 2
         then sorted_list_of_set (set (List.map_filter nbaTeamId pbp))
         else sorted_list_of_set valid_teams)"

fun def_team_clean :: "int list \<Rightarrow> int option \<Rightarrow> py_error + int option" where
  "def_team_clean [] x = Inl IndexError"
| "def_team_clean [v0] x =
     (if x = Some v0 then Inl IndexError else if x \<noteq> None then Inr (Some v0) else Inr None)"
| "def_team_clean (v0 # v1 # vs) x =
     (if x = Some v0 then Inr (Some v1) else if x \<noteq> None then Inr (Some v0) else Inr None)"

definition clean_team_ids ::
  "pbp_row list \<Rightarrow> (pbp_row \<times> int) list \<Rightarrow> py_error + clean_row list" where
  "clean_team_ids pbp_df timed =
     (let valid_teams = valid_teams_of pbp_df
      in map_err (\<lambda>(r, te).
            let off_clean = (case offTeamId r of
                               Some t \<Rightarrow> if t > 0 then Some t else None
                             | None \<Rightarrow> None)
            in case def_team_clean valid_teams off_clean of
                 Inl e \<Rightarrow> Inl e
               | Inr def_clean \<Rightarrow>
                   Inr (pbp_row.extend r
                          (clean_row.fields te off_clean def_clean))) timed)"

text \<open>
  \<open>_prepare_pbp_data\<close>: elapsed time is the period's largest clock value minus the row's,
  rows are ordered by period, elapsed time and \<open>pbpOrder\<close>.  For a table without rows
  \<open>DataFrame.apply\<close> gives back a frame instead of a column and the assignment of
  \<open>time_elapsed\<close> fails in pandas; the model returns an error for the empty table.
\<close>

definition prepare_pbp_data :: "pbp_row list \<Rightarrow> py_error + clean_row list" where
  "prepare_pbp_data pbp_df =
     (if pbp_df = [] then Inl ValueError
      else
        let timed = map (\<lambda>r. (r, max_period_time pbp_df (period r) - gameClock_seconds r)) pbp_df;
            ordered = sort_key (\<lambda>(r, te). (period r, te, pbpOrder r)) timed
        in clean_team_ids pbp_df ordered)"

text \<open>
  \<open>pbp_df.iloc[idx+1:idx+3] if idx < len(pbp_df)-2 else pd.DataFrame()\<close>: the next two
  plays, and nothing at all for the last two rows of the table.
\<close>

definition look_ahead :: "'a list \<Rightarrow> nat \<Rightarrow> 'a list" where
  "look_ahead pbp_df idx =
     (if int idx < int (length pbp_df) - 2 then take 2 (drop (idx + 1) pbp_df) else [])"

definition is_and_one_freethrow :: "clean_row \<Rightarrow> clean_row list \<Rightarrow> nat \<Rightarrow> bool" where
  "is_and_one_freethrow play pbp_df idx =
     list_ex (\<lambda>next_play. msgType next_play = 3 \<and>
                py_eq (playerId1 next_play) (playerId1 play) \<and>
                \<bar>time_elapsed next_play - time_elapsed play\<bar> < 5)
       (look_ahead pbp_df idx)"

definition is_last_free_throw :: "clean_row \<Rightarrow> clean_row list \<Rightarrow> nat \<Rightarrow> bool" where
  "is_last_free_throw play pbp_df idx =
     (\<not> list_ex (\<lambda>next_play. msgType next_play = 3 \<and>
                py_eq (playerId1 next_play) (playerId1 play) \<and>
                \<bar>time_elapsed next_play - time_elapsed play\<bar> < 10)
       (look_ahead pbp_df idx))"

text \<open>
  \<open>_is_defensive_rebound\<close> scans the previous five plays, latest first, for a missed shot.
  Every path of the source returns \<open>True\<close>.
\<close>

definition is_defensive_rebound :: "clean_row \<Rightarrow> clean_row list \<Rightarrow> nat \<Rightarrow> bool" where
  "is_defensive_rebound play pbp_df idx =
     (let prev_plays = rev (take (idx - (idx - 5)) (drop (idx - 5) pbp_df))
      in case find (\<lambda>prev_play. msgType prev_play = 2) prev_plays of
           Some prev_play \<Rightarrow>
             if offTeamId_clean play \<noteq> None \<and> offTeamId_clean prev_play \<noteq> None \<and>
                offTeamId_clean play \<noteq> offTeamId_clean prev_play
             then True
             else True
         | None \<Rightarrow> True)"

definition create_possession_ending :: "clean_row \<Rightarrow> string \<Rightarrow> nat \<Rightarrow> ending" where
  "create_possession_ending play etype idx =
     \<lparr>e_period = period play, e_end_time_seconds = gameClock_seconds play,
      e_time_elapsed = time_elapsed play, e_end_type = etype,
      ending_team = offTeamId_clean play, pbp_idx = idx\<rparr>"

text \<open>One turn of the loop of \<open>_identify_possession_endings\<close>, for the play at row \<open>idx\<close>.\<close>

definition ending_at :: "clean_row list \<Rightarrow> nat \<Rightarrow> clean_row \<Rightarrow> ending option" where
  "ending_at pbp_df idx play =
     (if msgType play = 1 then
        (if \<not> is_and_one_freethrow play pbp_df idx
         then Some (create_possession_ending play ''made_shot'' idx) else None)
      else if msgType play = 3 then
        (if is_last_free_throw play pbp_df idx
         then Some (create_possession_ending play ''free_throw'' idx) else None)
      else if msgType play = 4 then
        (if is_defensive_rebound play pbp_df idx
         then Some (create_possession_ending play ''defensive_rebound'' idx) else None)
      else if msgType play = 5 then Some (create_possession_ending play ''turnover'' idx)
      else if msgType play = 12 \<or> msgType play = 13
        then Some (create_possession_ending play ''period_end'' idx)
      else None)"

definition identify_possession_endings :: "clean_row list \<Rightarrow> ending list" where
  "identify_possession_endings pbp_df =
     List.map_filter (\<lambda>(idx, play). ending_at pbp_df idx play) (enumerate 0 pbp_df)"

text \<open>
  The inner loop of \<open>_build_possession_timeline\<close> over the endings of one period: \<open>pid\<close> is
  the running \<open>possession_id\<close>, the two teams swap after a \<open>defensive_rebound\<close> or a
  \<open>turnover\<close>.
\<close>

fun period_possessions ::
  "int \<Rightarrow> int \<Rightarrow> int \<Rightarrow> int \<Rightarrow> int \<Rightarrow> ending list \<Rightarrow> possession list" where
  "period_possessions p pid possession_start current_off_team other_team [] = []"
| "period_possessions p pid possession_start current_off_team other_team (e # es) =
     \<lparr>possession_id = pid, p_period = p, start_time_seconds = possession_start,
      end_time_seconds = e_end_time_seconds e, off_team = current_off_team,
      def_team = other_team, end_type = e_end_type e, pbp_end_idx = pbp_idx e\<rparr>
     # (if e_end_type e \<in> set [''defensive_rebound'', ''turnover'']
        then period_possessions p (pid + 1) (e_end_time_seconds e) other_team current_off_team es
        else period_possessions p (pid + 1) (e_end_time_seconds e) current_off_team other_team es)"

text \<open>
  \<open>valid_teams[1] if current_off_team == valid_teams[0] else valid_teams[0]\<close>, with the
  \<open>IndexError\<close> of a list that is too short.
\<close>

definition other_team_of :: "int list \<Rightarrow> int \<Rightarrow> py_error + int" where
  "other_team_of valid_teams current_off_team =
     (case valid_teams of
        [] \<Rightarrow> Inl IndexError
      | [v0] \<Rightarrow> if current_off_team = v0 then Inl IndexError else Inr v0
      | v0 # v1 # _ \<Rightarrow> if current_off_team = v0 then Inr v1 else Inr v0)"

text \<open>
  The outer loop over the sorted periods that have an ending.  The first row of the period
  with a team gives the offensive team (\<open>IndexError\<close> from \<open>.iloc[0]\<close> when there is none);
  the possession counter runs on from period to period.
\<close>

fun build_periods ::
  "clean_row list \<Rightarrow> ending list \<Rightarrow> int \<Rightarrow> int list \<Rightarrow> py_error + possession list" where
  "build_periods pbp_df endings_df pid [] = Inr []"
| "build_periods pbp_df endings_df pid (p # ps) =
     (let period_endings = sort_key e_time_elapsed (filter (\<lambda>e. e_period e = p) endings_df);
          period_pbp = filter (\<lambda>r. period r = p) pbp_df;
          period_start_time = Max (set (map gameClock_seconds period_pbp))
      in case List.map_filter offTeamId_clean period_pbp of
           [] \<Rightarrow> Inl IndexError
         | current_off_team # _ \<Rightarrow>
             let valid_teams = sorted_list_of_set (set (List.map_filter offTeamId_clean pbp_df))
             in case other_team_of valid_teams current_off_team of
                  Inl e \<Rightarrow> Inl e
                | Inr other_team \<Rightarrow>
                    (case build_periods pbp_df endings_df
                            (pid + int (length period_endings)) ps of
                       Inl e \<Rightarrow> Inl e
                     | Inr rest \<Rightarrow>
                         Inr (period_possessions p pid period_start_time current_off_team
                                other_team period_endings @ rest)))"

definition build_possession_timeline ::
  "clean_row list \<Rightarrow> ending list \<Rightarrow> py_error + possession list" where
  "build_possession_timeline pbp_df endings_df =
     (if endings_df = [] then Inr []
      else build_periods pbp_df endings_df 1
             (sorted_list_of_set (set (map e_period endings_df))))"

definition calculate_possession_metrics ::
  "possession list \<Rightarrow> clean_row list \<Rightarrow> scored_possession list" where
  "calculate_possession_metrics possessions_df pbp_df =
     map (\<lambda>poss.
            possession.extend poss
              (scored_possession.fields
                 \<bar>start_time_seconds poss - end_time_seconds poss\<bar>
                 (sum_list (map pts (filter (\<lambda>r. period r = p_period poss \<and>
                      gameClock_seconds r \<le> start_time_seconds poss \<and>
                      gameClock_seconds r \<ge> end_time_seconds poss \<and>
                      offTeamId_clean r = Some (off_team poss) \<and> pts r > 0) pbp_df)))))
       possessions_df"

definition extract_possessions :: "pbp_row list \<Rightarrow> py_error + scored_possession list" where
  "extract_possessions pbp_df =
     (case prepare_pbp_data pbp_df of
        Inl e \<Rightarrow> Inl e
      | Inr pbp_clean \<Rightarrow>
          (case build_possession_timeline pbp_clean (identify_possession_endings pbp_clean) of
             Inl e \<Rightarrow> Inl e
           | Inr possessions \<Rightarrow> Inr (calculate_possession_metrics possessions pbp_clean)))"

subsection \<open>One period of the timeline\<close>

lemma length_period_possessions [simp]:
  "length (period_possessions p pid s a b es) = length es"
  by (induction es arbitrary: pid s a b) simp_all

lemma ids_period_possessions:
  "map possession_id (period_possessions p pid s a b es) = [pid .. pid + int (length es) - 1]"
proof (induction es arbitrary: pid s a b)
  case Nil
  then show ?case by simp
next
  case (Cons e es)
  have "[pid .. pid + int (length (e # es)) - 1] = pid # [pid + 1 .. pid + 1 + int (length es) - 1]"
    by (subst upto_rec1) (simp_all add: algebra_simps)
  then show ?case using Cons by simp
qed

lemma period_period_possessions:
  "q \<in> set (period_possessions p pid s a b es) \<Longrightarrow> p_period q = p"
  by (induction es arbitrary: pid s a b) (auto split: if_splits)

lemma teams_period_possessions:
  "q \<in> set (period_possessions p pid s a b es) \<Longrightarrow>
     (off_team q = a \<and> def_team q = b) \<or> (off_team q = b \<and> def_team q = a)"
  by (induction es arbitrary: pid s a b) (auto split: if_splits)

lemma start_period_possessions:
  "q \<in> set (period_possessions p pid s a b es) \<Longrightarrow>
     start_time_seconds q = s \<or> start_time_seconds q \<in> set (map e_end_time_seconds es)"
  by (induction es arbitrary: pid s a b) (fastforce split: if_splits)+

lemma starts_sorted_period_possessions:
  "sorted_wrt (\<ge>) (s # map e_end_time_seconds es) \<Longrightarrow>
   sorted_wrt (\<ge>) (map start_time_seconds (period_possessions p pid s a b es))"
proof (induction es arbitrary: pid s a b)
  case Nil
  then show ?case by simp
next
  case (Cons e es)
  have tail: "sorted_wrt (\<ge>) (e_end_time_seconds e # map e_end_time_seconds es)"
    using Cons.prems by simp
  have bound: "s \<ge> start_time_seconds q"
    if "q \<in> set (period_possessions p pid' (e_end_time_seconds e) a' b' es)" for q pid' a' b'
    using start_period_possessions [OF that] Cons.prems by auto
  show ?case
    using Cons.IH [OF tail] bound by (auto simp: sorted_wrt_map)
qed

definition teams_follow :: "'a possession_scheme \<Rightarrow> 'b possession_scheme \<Rightarrow> bool" where
  "teams_follow x y \<longleftrightarrow>
     (if end_type x = ''turnover'' \<or> end_type x = ''defensive_rebound''
      then off_team y = def_team x \<and> def_team y = off_team x
      else off_team y = off_team x \<and> def_team y = def_team x)"

lemma follow_period_possessions:
  "successively teams_follow (period_possessions p pid s a b es)"
proof (induction es arbitrary: pid s a b)
  case Nil
  then show ?case by simp
next
  case (Cons e es)
  show ?case
  proof (cases es)
    case Nil
    then show ?thesis by simp
  next
    case (Cons e' es')
    then show ?thesis
      using Cons.IH by (auto simp: successively_Cons teams_follow_def)
  qed
qed



subsection \<open>The timeline over all periods\<close>

lemma other_team_of_differs:
  "other_team_of vt cur = Inr oth \<Longrightarrow> distinct vt \<Longrightarrow> oth \<noteq> cur"
  by (auto simp: other_team_of_def split: list.splits if_splits)

definition period_endings_of :: "ending list \<Rightarrow> int \<Rightarrow> ending list" where
  "period_endings_of endings_df p =
     sort_key e_time_elapsed (filter (\<lambda>e. e_period e = p) endings_df)"

definition period_start_of :: "clean_row list \<Rightarrow> int \<Rightarrow> int" where
  "period_start_of pbp_df p =
     Max (set (map gameClock_seconds (filter (\<lambda>r. period r = p) pbp_df)))"

lemma build_periods_ConsE:
  assumes "build_periods pbp es pid (p # ps) = Inr res"
  obtains cur oth rest where
    "res = period_possessions p pid (period_start_of pbp p) cur oth (period_endings_of es p) @ rest"
    "build_periods pbp es (pid + int (length (period_endings_of es p))) ps = Inr rest"
    "oth \<noteq> cur"
proof -
  let ?vt = "sorted_list_of_set (set (List.map_filter offTeamId_clean pbp))"
  obtain cur tl where c: "List.map_filter offTeamId_clean (filter (\<lambda>r. period r = p) pbp) = cur # tl"
    using assms by (auto simp: Let_def split: list.splits)
  obtain oth where o: "other_team_of ?vt cur = Inr oth"
    using assms c by (auto simp: Let_def split: sum.splits)
  obtain rest where
    r: "build_periods pbp es (pid + int (length (period_endings_of es p))) ps = Inr rest"
    using assms c o by (auto simp: Let_def period_endings_of_def split: sum.splits)
  have "res = period_possessions p pid (period_start_of pbp p) cur oth (period_endings_of es p) @ rest"
    using assms c o r by (simp add: Let_def period_endings_of_def period_start_of_def)
  moreover have "oth \<noteq> cur"
    using other_team_of_differs [OF o] by simp
  ultimately show ?thesis using that r by blast
qed

lemma build_periods_teams_differ:
  "build_periods pbp es pid ps = Inr res \<Longrightarrow> q \<in> set res \<Longrightarrow> off_team q \<noteq> def_team q"
proof (induction ps arbitrary: pid res)
  case Nil
  then show ?case by simp
next
  case (Cons p ps)
  from Cons.prems(1) obtain cur oth rest where
    res: "res = period_possessions p pid (period_start_of pbp p) cur oth (period_endings_of es p) @ rest"
    and rest: "build_periods pbp es (pid + int (length (period_endings_of es p))) ps = Inr rest"
    and ne: "oth \<noteq> cur"
    by (rule build_periods_ConsE)
  show ?case
    using Cons.prems(2) Cons.IH [OF rest] ne teams_period_possessions
    unfolding res by fastforce
qed

lemma build_periods_ids:
  "build_periods pbp es pid ps = Inr res \<Longrightarrow>
     map possession_id res = [pid .. pid + int (length res) - 1]"
proof (induction ps arbitrary: pid res)
  case Nil
  then show ?case by simp
next
  case (Cons p ps)
  from Cons.prems(1) obtain cur oth rest where
    res: "res = period_possessions p pid (period_start_of pbp p) cur oth (period_endings_of es p) @ rest"
    and rest: "build_periods pbp es (pid + int (length (period_endings_of es p))) ps = Inr rest"
    by (rule build_periods_ConsE)
  define n where "n = int (length (period_endings_of es p))"
  define m where "m = int (length rest)"
  have "map possession_id res = [pid .. pid + n - 1] @ [pid + n .. pid + n + m - 1]"
    unfolding res using Cons.IH [OF rest] by (simp add: ids_period_possessions n_def m_def)
  also have "\<dots> = [pid .. pid + n + m - 1]"
    using upto_split1 [of pid "pid + n" "pid + n + m - 1"]
    by (cases "m = 0") (simp_all add: n_def m_def)
  finally show ?case by (simp add: res n_def m_def algebra_simps)
qed

lemma build_periods_periods:
  "build_periods pbp es pid ps = Inr res \<Longrightarrow> q \<in> set res \<Longrightarrow> p_period q \<in> set ps"
proof (induction ps arbitrary: pid res)
  case Nil
  then show ?case by simp
next
  case (Cons p ps)
  from Cons.prems(1) obtain cur oth rest where
    res: "res = period_possessions p pid (period_start_of pbp p) cur oth (period_endings_of es p) @ rest"
    and rest: "build_periods pbp es (pid + int (length (period_endings_of es p))) ps = Inr rest"
    by (rule build_periods_ConsE)
  show ?case
    using Cons.prems(2) Cons.IH [OF rest] period_period_possessions
    unfolding res by fastforce
qed

lemma build_periods_follow:
  assumes "distinct ps"
  shows "build_periods pbp es pid ps = Inr res \<Longrightarrow>
     successively (\<lambda>x y. p_period x = p_period y \<longrightarrow> teams_follow x y) res"
  using assms
proof (induction ps arbitrary: pid res)
  case Nil
  then show ?case by simp
next
  case (Cons p ps)
  from Cons.prems(1) obtain cur oth rest where
    res: "res = period_possessions p pid (period_start_of pbp p) cur oth (period_endings_of es p) @ rest"
    and rest: "build_periods pbp es (pid + int (length (period_endings_of es p))) ps = Inr rest"
    by (rule build_periods_ConsE)
  let ?blk = "period_possessions p pid (period_start_of pbp p) cur oth (period_endings_of es p)"
  have blk: "successively (\<lambda>x y. p_period x = p_period y \<longrightarrow> teams_follow x y) ?blk"
    by (rule successively_mono [OF follow_period_possessions]) simp
  have tl: "successively (\<lambda>x y. p_period x = p_period y \<longrightarrow> teams_follow x y) rest"
    using Cons.IH [OF rest] Cons.prems(2) by simp
  have seam: "p_period (last ?blk) \<noteq> p_period (hd rest)" if "?blk \<noteq> []" "rest \<noteq> []"
  proof -
    have "p_period (last ?blk) = p"
      using that(1) period_period_possessions last_in_set by blast
    moreover have "p_period (hd rest) \<in> set ps"
      using that(2) build_periods_periods [OF rest] hd_in_set by blast
    ultimately show ?thesis using Cons.prems(2) by auto
  qed
  show ?case
    unfolding res successively_append_iff using blk tl seam by blast
qed

lemma build_periods_chronological:
  assumes "sorted ps" "distinct ps"
    and ends: "\<And>e. e \<in> set es \<Longrightarrow>
        \<exists>r \<in> set pbp. e_period e = period r \<and> e_end_time_seconds e = gameClock_seconds r
           \<and> e_time_elapsed e = K (period r) - gameClock_seconds r"
  shows "build_periods pbp es pid ps = Inr res \<Longrightarrow>
     sorted_wrt (\<lambda>x y. p_period x \<le> p_period y \<and>
        (p_period x = p_period y \<longrightarrow> start_time_seconds x \<ge> start_time_seconds y)) res"
  using assms(1,2)
proof (induction ps arbitrary: pid res)
  case Nil
  then show ?case by simp
next
  case (Cons p ps)
  from Cons.prems(1) obtain cur oth rest where
    res: "res = period_possessions p pid (period_start_of pbp p) cur oth (period_endings_of es p) @ rest"
    and rest: "build_periods pbp es (pid + int (length (period_endings_of es p))) ps = Inr rest"
    by (rule build_periods_ConsE)
  let ?pe = "period_endings_of es p"
  let ?blk = "period_possessions p pid (period_start_of pbp p) cur oth ?pe"
  let ?R = "\<lambda>x y. p_period x \<le> p_period y \<and>
        (p_period x = p_period y \<longrightarrow> start_time_seconds x \<ge> start_time_seconds y)"
  have in_pe: "e \<in> set es \<and> e_period e = p" if "e \<in> set ?pe" for e
    using that by (simp add: period_endings_of_def)
  have pe_row: "e_end_time_seconds e \<le> period_start_of pbp p \<and>
                e_time_elapsed e = K p - e_end_time_seconds e" if "e \<in> set ?pe" for e
  proof -
    from in_pe [OF that] ends obtain r where r: "r \<in> set pbp" "period r = p"
      "e_end_time_seconds e = gameClock_seconds r"
      "e_time_elapsed e = K (period r) - gameClock_seconds r"
      by metis
    have "gameClock_seconds r \<le> period_start_of pbp p"
      unfolding period_start_of_def using r(1,2) by (intro Max_ge) auto
    then show ?thesis using r by simp
  qed
  have "sorted_wrt (\<lambda>x y. e_time_elapsed x \<le> e_time_elapsed y) ?pe"
    using sorted_sort_key [of e_time_elapsed "filter (\<lambda>e. e_period e = p) es"]
    by (simp add: period_endings_of_def sorted_wrt_map)
  then have "sorted_wrt (\<lambda>x y. e_end_time_seconds x \<ge> e_end_time_seconds y) ?pe"
    by (rule sorted_wrt_mono_rel [rotated]) (use pe_row in force)
  then have "sorted_wrt (\<ge>) (period_start_of pbp p # map e_end_time_seconds ?pe)"
    using pe_row by (auto simp: sorted_wrt_map)
  then have "sorted_wrt (\<ge>) (map start_time_seconds ?blk)"
    by (rule starts_sorted_period_possessions)
  then have starts: "sorted_wrt (\<lambda>x y. start_time_seconds x \<ge> start_time_seconds y) ?blk"
    by (simp add: sorted_wrt_map)
  have same: "p_period x = p" if "x \<in> set ?blk" for x
    using that by (rule period_period_possessions)
  have blk: "sorted_wrt ?R ?blk"
    by (rule sorted_wrt_mono_rel [OF _ starts]) (simp add: same)
  have tl: "sorted_wrt ?R rest"
    using Cons.IH [OF rest] Cons.prems(2,3) by simp
  have cross: "?R x y" if "x \<in> set ?blk" "y \<in> set rest" for x y
  proof -
    have "p_period x = p" using that(1) period_period_possessions by blast
    moreover have "p_period y \<in> set ps" using that(2) build_periods_periods [OF rest] by blast
    ultimately show ?thesis using Cons.prems(2,3) by auto
  qed
  show ?case
    unfolding res sorted_wrt_append using blk tl cross by blast
qed


subsection \<open>From the raw table to the timeline\<close>

lemma map_err_in_set:
  "map_err f xs = Inr ys \<Longrightarrow> y \<in> set ys \<Longrightarrow> \<exists>x \<in> set xs. f x = Inr y"
  by (induction xs arbitrary: ys) (auto split: sum.splits)

lemma prepare_rows:
  assumes "prepare_pbp_data pbp_df = Inr pbp_clean" and "r \<in> set pbp_clean"
  shows "\<exists>r0 \<in> set pbp_df. period r = period r0 \<and> gameClock_seconds r = gameClock_seconds r0
           \<and> time_elapsed r = max_period_time pbp_df (period r0) - gameClock_seconds r0"
proof -
  define timed where
    "timed = map (\<lambda>r. (r, max_period_time pbp_df (period r) - gameClock_seconds r)) pbp_df"
  define ordered where "ordered = sort_key (\<lambda>(r, te). (period r, te, pbpOrder r)) timed"
  have "clean_team_ids pbp_df ordered = Inr pbp_clean"
    using assms(1) by (simp add: prepare_pbp_data_def Let_def timed_def ordered_def split: if_splits)
  then obtain x where x: "x \<in> set ordered" and fx:
    "(case x of (r0, te) \<Rightarrow>
        let off_clean = (case offTeamId r0 of
                           Some t \<Rightarrow> if t > 0 then Some t else None
                         | None \<Rightarrow> None)
        in case def_team_clean (valid_teams_of pbp_df) off_clean of
             Inl e \<Rightarrow> Inl e
           | Inr def_clean \<Rightarrow>
               Inr (pbp_row.extend r0 (clean_row.fields te off_clean def_clean))) = Inr r"
    unfolding clean_team_ids_def Let_def using map_err_in_set [OF _ assms(2)] by (metis (lifting))
  obtain r0 te where x_eq: "x = (r0, te)" by (cases x)
  have "(r0, te) \<in> set timed"
    using x unfolding ordered_def x_eq by simp
  then have r0: "r0 \<in> set pbp_df" and te: "te = max_period_time pbp_df (period r0) - gameClock_seconds r0"
    by (auto simp: timed_def)
  obtain oc dc where "r = pbp_row.extend r0 (clean_row.fields te oc dc)"
    using fx unfolding x_eq by (auto simp: Let_def split: sum.splits)
  then have "period r = period r0 \<and> gameClock_seconds r = gameClock_seconds r0 \<and> time_elapsed r = te"
    by (simp add: pbp_row.defs clean_row.defs)
  then show ?thesis using r0 te by blast
qed

lemma endings_rows:
  assumes "e \<in> set (identify_possession_endings pbp_clean)"
  shows "\<exists>r \<in> set pbp_clean. e_period e = period r \<and> e_end_time_seconds e = gameClock_seconds r
           \<and> e_time_elapsed e = time_elapsed r"
proof -
  from assms obtain idx play where ip: "(idx, play) \<in> set (enumerate 0 pbp_clean)"
    and e: "ending_at pbp_clean idx play = Some e"
    unfolding identify_possession_endings_def map_filter_def by auto
  have "play \<in> set pbp_clean"
    using ip by (auto simp: in_set_enumerate_eq)
  moreover have "\<exists>etype. e = create_possession_ending play etype idx"
    using e by (auto simp: ending_at_def split: if_splits)
  ultimately show ?thesis
    by (auto simp: create_possession_ending_def)
qed



lemma timeline_cases:
  assumes "build_possession_timeline pbp_clean es = Inr tline"
  obtains "tline = []"
  | "build_periods pbp_clean es 1 (sorted_list_of_set (set (map e_period es))) = Inr tline"
proof (cases "es = []")
  case True
  then have "tline = []"
    using assms by (simp add: build_possession_timeline_def)
  then show ?thesis by (rule that(1))
next
  case False
  then have "build_periods pbp_clean es 1 (sorted_list_of_set (set (map e_period es))) = Inr tline"
    using assms by (simp add: build_possession_timeline_def)
  then show ?thesis by (rule that(2))
qed

lemma extract_possessionsE:
  assumes "extract_possessions pbp_df = Inr ps"
  obtains pbp_clean tline where
    "prepare_pbp_data pbp_df = Inr pbp_clean"
    "build_possession_timeline pbp_clean (identify_possession_endings pbp_clean) = Inr tline"
    "ps = calculate_possession_metrics tline pbp_clean"
  using assms by (auto simp: extract_possessions_def split: sum.splits)

lemma metrics_fields:
  "map possession_id (calculate_possession_metrics tline c) = map possession_id tline"
  "map p_period (calculate_possession_metrics tline c) = map p_period tline"
  "map start_time_seconds (calculate_possession_metrics tline c) = map start_time_seconds tline"
  "map off_team (calculate_possession_metrics tline c) = map off_team tline"
  "map def_team (calculate_possession_metrics tline c) = map def_team tline"
  "map end_type (calculate_possession_metrics tline c) = map end_type tline"
  by (simp_all add: calculate_possession_metrics_def possession.defs scored_possession.defs)

lemma length_metrics [simp]: "length (calculate_possession_metrics tline c) = length tline"
  by (simp add: calculate_possession_metrics_def)


lemma nth_via_map:
  assumes "map f xs = map g ys" and "i < length xs"
  shows "f (xs ! i) = g (ys ! i)"
proof -
  have "length ys = length xs"
    using assms(1) by (metis length_map)
  then have "map g ys ! i = g (ys ! i)"
    using assms(2) by simp
  moreover have "map f xs ! i = f (xs ! i)"
    using assms(2) by simp
  ultimately show ?thesis using assms(1) by simp
qed

lemma metrics_nth:
  assumes "i < length tline"
  shows "p_period (calculate_possession_metrics tline c ! i) = p_period (tline ! i)"
    and "start_time_seconds (calculate_possession_metrics tline c ! i) = start_time_seconds (tline ! i)"
    and "off_team (calculate_possession_metrics tline c ! i) = off_team (tline ! i)"
    and "def_team (calculate_possession_metrics tline c ! i) = def_team (tline ! i)"
    and "end_type (calculate_possession_metrics tline c ! i) = end_type (tline ! i)"
proof -
  have i: "i < length (calculate_possession_metrics tline c)" using assms by simp
  show "p_period (calculate_possession_metrics tline c ! i) = p_period (tline ! i)"
    by (rule nth_via_map [OF metrics_fields(2) i])
  show "start_time_seconds (calculate_possession_metrics tline c ! i) = start_time_seconds (tline ! i)"
    by (rule nth_via_map [OF metrics_fields(3) i])
  show "off_team (calculate_possession_metrics tline c ! i) = off_team (tline ! i)"
    by (rule nth_via_map [OF metrics_fields(4) i])
  show "def_team (calculate_possession_metrics tline c ! i) = def_team (tline ! i)"
    by (rule nth_via_map [OF metrics_fields(5) i])
  show "end_type (calculate_possession_metrics tline c ! i) = end_type (tline ! i)"
    by (rule nth_via_map [OF metrics_fields(6) i])
qed

text \<open>
  Claim C7.  In every possession that \<open>extract_possessions\<close> returns the offensive team
  differs from the defensive team; and for two consecutive possessions of the same period,
  the second has the two teams swapped when the first ended as \<open>turnover\<close> or
  \<open>defensive_rebound\<close>, and has the same offensive and defensive team otherwise.
\<close>

theorem extract_possessions_teams:
  assumes "extract_possessions pbp_df = Inr ps"
  shows "(\<forall>q \<in> set ps. off_team q \<noteq> def_team q) \<and>
         (\<forall>i. Suc i < length ps \<and> p_period (ps ! i) = p_period (ps ! Suc i) \<longrightarrow>
            (if end_type (ps ! i) = ''turnover'' \<or> end_type (ps ! i) = ''defensive_rebound''
             then off_team (ps ! Suc i) = def_team (ps ! i) \<and>
                  def_team (ps ! Suc i) = off_team (ps ! i)
             else off_team (ps ! Suc i) = off_team (ps ! i) \<and>
                  def_team (ps ! Suc i) = def_team (ps ! i)))"
proof -
  from assms obtain pbp_clean tline where
    tline: "build_possession_timeline pbp_clean (identify_possession_endings pbp_clean) = Inr tline"
    and ps: "ps = calculate_possession_metrics tline pbp_clean"
    by (rule extract_possessionsE)
  let ?es = "identify_possession_endings pbp_clean"
  let ?periods = "sorted_list_of_set (set (map e_period ?es))"
  have len: "length ps = length tline" by (simp add: ps)
  have fld: "off_team (ps ! i) = off_team (tline ! i)" "def_team (ps ! i) = def_team (tline ! i)"
    "end_type (ps ! i) = end_type (tline ! i)" "p_period (ps ! i) = p_period (tline ! i)"
    if "i < length ps" for i
    using that metrics_nth [of i tline pbp_clean] unfolding ps by simp_all
  have differ: "off_team q \<noteq> def_team q" if "q \<in> set tline" for q
    using tline
  proof (cases rule: timeline_cases)
    case 1
    then show ?thesis using that by simp
  next
    case 2
    then show ?thesis using that by (rule build_periods_teams_differ)
  qed
  have follow: "successively (\<lambda>x y. p_period x = p_period y \<longrightarrow> teams_follow x y) tline"
    using tline
  proof (cases rule: timeline_cases)
    case 1
    then show ?thesis by simp
  next
    case 2
    show ?thesis by (rule build_periods_follow [OF _ 2]) simp
  qed
  have part1: "\<forall>q \<in> set ps. off_team q \<noteq> def_team q"
  proof
    fix q assume "q \<in> set ps"
    then obtain i where i: "i < length ps" "q = ps ! i" by (auto simp: in_set_conv_nth)
    then have "tline ! i \<in> set tline" using len by simp
    then have "off_team (tline ! i) \<noteq> def_team (tline ! i)" by (rule differ)
    then show "off_team q \<noteq> def_team q" using fld(1,2) [of i] i by simp
  qed
  have part2: "\<forall>i. Suc i < length ps \<and> p_period (ps ! i) = p_period (ps ! Suc i) \<longrightarrow>
            (if end_type (ps ! i) = ''turnover'' \<or> end_type (ps ! i) = ''defensive_rebound''
             then off_team (ps ! Suc i) = def_team (ps ! i) \<and>
                  def_team (ps ! Suc i) = off_team (ps ! i)
             else off_team (ps ! Suc i) = off_team (ps ! i) \<and>
                  def_team (ps ! Suc i) = def_team (ps ! i))"
  proof (intro allI impI)
    fix i assume h: "Suc i < length ps \<and> p_period (ps ! i) = p_period (ps ! Suc i)"
    then have "Suc i < length tline" "i < length ps" using len by simp_all
    moreover have "p_period (tline ! i) = p_period (tline ! Suc i)"
      using h fld(4) [of i] fld(4) [of "Suc i"] by simp
    ultimately have "teams_follow (tline ! i) (tline ! Suc i)"
      using successively_nth [OF follow, of i] by simp
    then show "if end_type (ps ! i) = ''turnover'' \<or> end_type (ps ! i) = ''defensive_rebound''
             then off_team (ps ! Suc i) = def_team (ps ! i) \<and>
                  def_team (ps ! Suc i) = off_team (ps ! i)
             else off_team (ps ! Suc i) = off_team (ps ! i) \<and>
                  def_team (ps ! Suc i) = def_team (ps ! i)"
      using h fld [of i] fld(1,2) [of "Suc i"] unfolding teams_follow_def
      by (simp del: One_nat_def)
  qed
  show ?thesis by (rule conjI [OF part1 part2])
qed



text \<open>
  Claim C8.  The possession ids of the output of \<open>extract_possessions\<close> are exactly
  \<open>1, 2, \<dots>, N\<close> in output order, and the output order is chronological: periods never
  decrease along the output, and within one period the start times, which are game-clock
  seconds remaining, never increase (so elapsed time never decreases).
\<close>

theorem extract_possessions_ids_chronological:
  assumes "extract_possessions pbp_df = Inr ps"
  shows "map possession_id ps = [1 .. int (length ps)] \<and>
         (\<forall>i j. i < j \<and> j < length ps \<longrightarrow>
            p_period (ps ! i) \<le> p_period (ps ! j) \<and>
            (p_period (ps ! i) = p_period (ps ! j) \<longrightarrow>
               start_time_seconds (ps ! i) \<ge> start_time_seconds (ps ! j)))"
proof -
  from assms obtain pbp_clean tline where
    clean: "prepare_pbp_data pbp_df = Inr pbp_clean"
    and tline: "build_possession_timeline pbp_clean (identify_possession_endings pbp_clean) = Inr tline"
    and ps: "ps = calculate_possession_metrics tline pbp_clean"
    by (rule extract_possessionsE)
  let ?es = "identify_possession_endings pbp_clean"
  let ?R = "\<lambda>x y. p_period x \<le> p_period y \<and>
        (p_period x = p_period y \<longrightarrow> start_time_seconds x \<ge> start_time_seconds y)"
  have len: "length ps = length tline" by (simp add: ps)
  have fld: "p_period (ps ! i) = p_period (tline ! i)"
    "start_time_seconds (ps ! i) = start_time_seconds (tline ! i)"
    if "i < length ps" for i
    using that metrics_nth [of i tline pbp_clean] unfolding ps by simp_all
  have ends: "\<exists>r \<in> set pbp_clean. e_period e = period r \<and>
        e_end_time_seconds e = gameClock_seconds r \<and>
        e_time_elapsed e = max_period_time pbp_df (period r) - gameClock_seconds r"
    if "e \<in> set ?es" for e
  proof -
    from endings_rows [OF that] obtain r where r: "r \<in> set pbp_clean" "e_period e = period r"
      "e_end_time_seconds e = gameClock_seconds r" "e_time_elapsed e = time_elapsed r"
      by blast
    from prepare_rows [OF clean r(1)] obtain r0 :: pbp_row where "period r = period r0"
      "gameClock_seconds r = gameClock_seconds r0"
      "time_elapsed r = max_period_time pbp_df (period r0) - gameClock_seconds r0"
      by blast
    then have "time_elapsed r = max_period_time pbp_df (period r) - gameClock_seconds r"
      by simp
    then have "e_period e = period r \<and>
        e_end_time_seconds e = gameClock_seconds r \<and>
        e_time_elapsed e = max_period_time pbp_df (period r) - gameClock_seconds r"
      using r by simp
    with r(1) show ?thesis by blast
  qed
  have ids: "map possession_id tline = [1 .. int (length tline)]"
    using tline
  proof (cases rule: timeline_cases)
    case 1
    then show ?thesis by simp
  next
    case 2
    show ?thesis using build_periods_ids [OF 2] by simp
  qed
  have chrono: "sorted_wrt ?R tline"
    using tline
  proof (cases rule: timeline_cases)
    case 1
    then show ?thesis by simp
  next
    case 2
    show ?thesis
      by (rule build_periods_chronological [OF _ _ ends 2]) simp_all
  qed
  have part1: "map possession_id ps = [1 .. int (length ps)]"
    using ids metrics_fields(1) [of tline pbp_clean] by (simp add: ps)
  have part2: "\<forall>i j. i < j \<and> j < length ps \<longrightarrow> ?R (ps ! i) (ps ! j)"
  proof (intro allI impI)
    fix i j assume h: "i < j \<and> j < length ps"
    then have "?R (tline ! i) (tline ! j)"
      using sorted_wrt_nth_less [OF chrono, of i j] len by simp
    moreover have "i < length ps" using h by simp
    ultimately show "?R (ps ! i) (ps ! j)"
      using h fld [of i] fld [of j] by simp
  qed
  show ?thesis by (rule conjI [OF part1 part2])
qed

subsection \<open>A stream that ends with an and-one\<close>

text \<open>
  Away from the end of the table the and-one rule works as described: a made shot with a
  free throw of the same shooter among the next two plays, less than five seconds apart,
  ends no possession.  At the last two rows the look-ahead is empty and every made shot
  ends one.
\<close>

lemma and_one_defers_before_last_two_rows:
  assumes "int idx < int (length pbp_df) - 2"
    and "msgType play = 1"
    and "next_play \<in> set (take 2 (drop (idx + 1) pbp_df))"
    and "msgType next_play = 3"
    and "py_eq (playerId1 next_play) (playerId1 play)"
    and "\<bar>time_elapsed next_play - time_elapsed play\<bar> < 5"
  shows "ending_at pbp_df idx play = None"
proof -
  have "is_and_one_freethrow play pbp_df idx"
    unfolding is_and_one_freethrow_def look_ahead_def list_ex_iff
    using assms by auto
  then show ?thesis
    using assms(2) by (simp add: ending_at_def)
qed

lemma made_shot_closes_in_last_two_rows:
  assumes "\<not> int idx < int (length pbp_df) - 2" and "msgType play = 1"
  shows "ending_at pbp_df idx play = Some (create_possession_ending play ''made_shot'' idx)"
  using assms by (simp add: ending_at_def is_and_one_freethrow_def look_ahead_def)

definition ex_and_one_pbp :: "pbp_row list" where
  "ex_and_one_pbp =
     [blank_event\<lparr>gameClock := ''12:00'', gameClock_seconds := 720, pbpOrder := 1, msgType := 10,
        offTeamId := Some 1610612742, defTeamId := Some 1610612745, playerId1 := Some 201,
        playerId2 := Some 101\<rparr>,
      blank_event\<lparr>gameClock := ''11:50'', gameClock_seconds := 710, pbpOrder := 2, msgType := 5,
        offTeamId := Some 1610612742, defTeamId := Some 1610612745, playerId1 := Some 201\<rparr>,
      blank_event\<lparr>gameClock := ''11:40'', gameClock_seconds := 700, pbpOrder := 3, msgType := 1,
        offTeamId := Some 1610612745, defTeamId := Some 1610612742, playerId1 := Some 101,
        pts := 2\<rparr>,
      blank_event\<lparr>gameClock := ''11:39'', gameClock_seconds := 699, pbpOrder := 4, msgType := 3,
        offTeamId := Some 1610612745, defTeamId := Some 1610612742, playerId1 := Some 101,
        pts := 1\<rparr>]"

definition ex_trailing_event :: pbp_row where
  "ex_trailing_event =
     blank_event\<lparr>gameClock := ''11:30'', gameClock_seconds := 690, pbpOrder := 5, msgType := 2,
       offTeamId := Some 1610612742, defTeamId := Some 1610612745, playerId1 := Some 201\<rparr>"

definition ex_and_one_possessions :: "scored_possession list" where
  "ex_and_one_possessions =
     [\<lparr>possession_id = 1, p_period = 1, start_time_seconds = 720, end_time_seconds = 710,
       off_team = 1610612742, def_team = 1610612745, end_type = ''turnover'', pbp_end_idx = 1,
       duration_seconds = 10, points_scored = 0\<rparr>,
      \<lparr>possession_id = 2, p_period = 1, start_time_seconds = 710, end_time_seconds = 700,
       off_team = 1610612745, def_team = 1610612742, end_type = ''made_shot'', pbp_end_idx = 2,
       duration_seconds = 10, points_scored = 2\<rparr>,
      \<lparr>possession_id = 3, p_period = 1, start_time_seconds = 700, end_time_seconds = 699,
       off_team = 1610612745, def_team = 1610612742, end_type = ''free_throw'', pbp_end_idx = 3,
       duration_seconds = 1, points_scored = 3\<rparr>]"

lemma ex_and_one_output: "extract_possessions ex_and_one_pbp = Inr ex_and_one_possessions"
  by code_simp

lemma ex_and_one_trailing_output:
  "extract_possessions (ex_and_one_pbp @ [ex_trailing_event]) =
     Inr [\<lparr>possession_id = 1, p_period = 1, start_time_seconds = 720, end_time_seconds = 710,
           off_team = 1610612742, def_team = 1610612745, end_type = ''turnover'',
           pbp_end_idx = 1, duration_seconds = 10, points_scored = 0\<rparr>,
          \<lparr>possession_id = 2, p_period = 1, start_time_seconds = 710, end_time_seconds = 699,
           off_team = 1610612745, def_team = 1610612742, end_type = ''free_throw'',
           pbp_end_idx = 3, duration_seconds = 11, points_scored = 3\<rparr>]"
  by code_simp

theorem extract_possessions_teams_witness:
  "extract_possessions ex_and_one_pbp = Inr ex_and_one_possessions \<and>
   off_team (ex_and_one_possessions ! 0) \<noteq> def_team (ex_and_one_possessions ! 0) \<and>
   end_type (ex_and_one_possessions ! 0) = ''turnover'' \<and>
   off_team (ex_and_one_possessions ! 1) = def_team (ex_and_one_possessions ! 0) \<and>
   def_team (ex_and_one_possessions ! 1) = off_team (ex_and_one_possessions ! 0) \<and>
   end_type (ex_and_one_possessions ! 1) = ''made_shot'' \<and>
   off_team (ex_and_one_possessions ! 2) = off_team (ex_and_one_possessions ! 1) \<and>
   def_team (ex_and_one_possessions ! 2) = def_team (ex_and_one_possessions ! 1)"
proof -
  note inst = extract_possessions_teams [OF ex_and_one_output]
  have len: "length ex_and_one_possessions = 3"
    by (simp add: ex_and_one_possessions_def)
  have per: "p_period (ex_and_one_possessions ! 0) = p_period (ex_and_one_possessions ! Suc 0)"
    "p_period (ex_and_one_possessions ! Suc 0) = p_period (ex_and_one_possessions ! Suc (Suc 0))"
    by (simp_all add: ex_and_one_possessions_def)
  have e0: "end_type (ex_and_one_possessions ! 0) = ''turnover''"
    and e1: "end_type (ex_and_one_possessions ! Suc 0) = ''made_shot''"
    by (simp_all add: ex_and_one_possessions_def)
  have "ex_and_one_possessions ! 0 \<in> set ex_and_one_possessions"
    using len by simp
  with inst have a: "off_team (ex_and_one_possessions ! 0) \<noteq> def_team (ex_and_one_possessions ! 0)"
    by blast
  from inst have "Suc 0 < length ex_and_one_possessions \<and>
      p_period (ex_and_one_possessions ! 0) = p_period (ex_and_one_possessions ! Suc 0) \<longrightarrow>
      (if end_type (ex_and_one_possessions ! 0) = ''turnover'' \<or>
          end_type (ex_and_one_possessions ! 0) = ''defensive_rebound''
       then off_team (ex_and_one_possessions ! Suc 0) = def_team (ex_and_one_possessions ! 0) \<and>
            def_team (ex_and_one_possessions ! Suc 0) = off_team (ex_and_one_possessions ! 0)
       else off_team (ex_and_one_possessions ! Suc 0) = off_team (ex_and_one_possessions ! 0) \<and>
            def_team (ex_and_one_possessions ! Suc 0) = def_team (ex_and_one_possessions ! 0))"
    by blast
  then have b: "off_team (ex_and_one_possessions ! Suc 0) = def_team (ex_and_one_possessions ! 0) \<and>
            def_team (ex_and_one_possessions ! Suc 0) = off_team (ex_and_one_possessions ! 0)"
    using len per(1) e0 by simp
  from inst have "Suc (Suc 0) < length ex_and_one_possessions \<and>
      p_period (ex_and_one_possessions ! Suc 0) = p_period (ex_and_one_possessions ! Suc (Suc 0)) \<longrightarrow>
      (if end_type (ex_and_one_possessions ! Suc 0) = ''turnover'' \<or>
          end_type (ex_and_one_possessions ! Suc 0) = ''defensive_rebound''
       then off_team (ex_and_one_possessions ! Suc (Suc 0)) = def_team (ex_and_one_possessions ! Suc 0) \<and>
            def_team (ex_and_one_possessions ! Suc (Suc 0)) = off_team (ex_and_one_possessions ! Suc 0)
       else off_team (ex_and_one_possessions ! Suc (Suc 0)) = off_team (ex_and_one_possessions ! Suc 0) \<and>
            def_team (ex_and_one_possessions ! Suc (Suc 0)) = def_team (ex_and_one_possessions ! Suc 0))"
    by blast
  then have c: "off_team (ex_and_one_possessions ! Suc (Suc 0)) = off_team (ex_and_one_possessions ! Suc 0) \<and>
            def_team (ex_and_one_possessions ! Suc (Suc 0)) = def_team (ex_and_one_possessions ! Suc 0)"
    using len per(2) e1 by simp
  have two: "(2::nat) = Suc (Suc 0)" by simp
  show ?thesis
    using ex_and_one_output a b c e0 e1 unfolding two One_nat_def by simp
qed

theorem extract_possessions_ids_chronological_witness:
  "extract_possessions ex_and_one_pbp = Inr ex_and_one_possessions \<and>
   map possession_id ex_and_one_possessions = [1, 2, 3] \<and>
   start_time_seconds (ex_and_one_possessions ! 0) \<ge> start_time_seconds (ex_and_one_possessions ! 2)"
proof -
  note inst = extract_possessions_ids_chronological [OF ex_and_one_output]
  have len: "length ex_and_one_possessions = 3"
    by (simp add: ex_and_one_possessions_def)
  have "[1 .. int (length ex_and_one_possessions)] = [1, 2, 3]"
    unfolding len by code_simp
  with inst have ids: "map possession_id ex_and_one_possessions = [1, 2, 3]"
    by simp
  have per: "p_period (ex_and_one_possessions ! 0) = p_period (ex_and_one_possessions ! 2)"
    by (simp add: ex_and_one_possessions_def)
  from inst have "(0::nat) < 2 \<and> 2 < length ex_and_one_possessions \<longrightarrow>
      p_period (ex_and_one_possessions ! 0) \<le> p_period (ex_and_one_possessions ! 2) \<and>
      (p_period (ex_and_one_possessions ! 0) = p_period (ex_and_one_possessions ! 2) \<longrightarrow>
         start_time_seconds (ex_and_one_possessions ! 0)
           \<ge> start_time_seconds (ex_and_one_possessions ! 2))"
    by blast
  then have "start_time_seconds (ex_and_one_possessions ! 0)
           \<ge> start_time_seconds (ex_and_one_possessions ! 2)"
    using len per by simp
  with ids ex_and_one_output show ?thesis by simp
qed

text \<open>
  Claim C3 says that a made shot followed within the look-ahead window by a free throw of
  the same shooter never closes the possession, wherever the made shot stands in the
  stream.  The look-ahead of \<open>_is_and_one_freethrow\<close> is only taken when
  \<open>idx < len(pbp_df) - 2\<close>, so a made shot that is the second-to-last event is never
  recognised as an and-one.  In the stream above (a jump ball, a turnover, then a made
  shot by player 101 and his free throw one second later) the made shot at row 2 closes a
  possession as \<open>made_shot\<close>; with one more event appended to the same stream the made shot
  closes no possession and the free throw at row 3 does.
\<close>

theorem and_one_at_end_of_stream_closes_at_made_shot:
  "(\<exists>ps. extract_possessions ex_and_one_pbp = Inr ps \<and>
      map end_type ps = [''turnover'', ''made_shot'', ''free_throw''] \<and>
      map pbp_end_idx ps = [1, 2, 3]) \<and>
   (\<exists>ps. extract_possessions (ex_and_one_pbp @ [ex_trailing_event]) = Inr ps \<and>
      map end_type ps = [''turnover'', ''free_throw''] \<and>
      map pbp_end_idx ps = [1, 3])"
  by (simp add: ex_and_one_output ex_and_one_trailing_output ex_and_one_possessions_def)

section \<open>Lineup timeline: \<open>lineups/transformers/lineup_states.py\<close>\<close>

text \<open>
  A row of the lineup timeline: the period, the display clock of the change with its
  value in seconds, the team label and id, and the players on court, sorted
  (\<open>player_1\<close> \<dots> \<open>player_5\<close>).  \<open>extract_lineup_states\<close> adds the \<open>lineup_id\<close> column.
\<close>

record lineup_row =
  ls_period :: int
  ls_game_clock :: string
  game_clock_seconds :: int
  ls_team :: string
  team_id :: int
  ls_players :: "int list"

record lineup_state = lineup_row +
  lineup_id :: string

text \<open>
  A row of the box score.  \<open>startPos\<close> is nullable; \<open>gs\<close> is the games-started flag.
\<close>

record box_row =
  nbaId :: int
  bx_name :: string
  bx_team :: string
  bx_nbaTeamId :: int
  startPos :: "string option"
  gs :: int

text \<open>
  The value of the \<open>starting_lineups\<close> dictionary for a team, and a row of the substitution
  table of \<open>_parse_substitutions\<close>.
\<close>

record starting_lineup =
  sl_players :: "int set"
  sl_team_id :: int

record substitution =
  s_period :: int
  s_game_clock :: string
  s_game_clock_seconds :: int
  s_team :: "string option"
  player_in :: int
  player_out :: int

text \<open>\<open>Series.unique()\<close>: the distinct values in order of first appearance.\<close>

definition unique :: "'a list \<Rightarrow> 'a list" where
  "unique xs = rev (remdups (rev xs))"

text \<open>A loop over rows whose body may raise: the first error aborts.\<close>

fun fold_err :: "('s \<Rightarrow> 'a \<Rightarrow> 'e + 's) \<Rightarrow> 'a list \<Rightarrow> 's \<Rightarrow> 'e + 's" where
  "fold_err f [] st = Inr st"
| "fold_err f (x # xs) st = (case f st x of Inl e \<Rightarrow> Inl e | Inr st' \<Rightarrow> fold_err f xs st')"

text \<open>
  \<open>_extract_starting_lineups\<close>: the starters are the rows with a non-empty \<open>startPos\<close>; each
  team that has a starter must have exactly five starter rows, or \<open>ValueError\<close> is raised.
\<close>

definition extract_starting_lineups ::
  "box_row list \<Rightarrow> py_error + (string \<times> starting_lineup) list" where
  "extract_starting_lineups box_score_df =
     (let starters = filter (\<lambda>r. case startPos r of None \<Rightarrow> False | Some s \<Rightarrow> s \<noteq> [])
                       box_score_df
      in map_err (\<lambda>team_label.
            case filter (\<lambda>r. bx_team r = team_label) starters of
              [] \<Rightarrow> Inl IndexError
            | first_row # others \<Rightarrow>
                if length (first_row # others) \<noteq> 5 then Inl ValueError
                else Inr (team_label,
                          \<lparr>sl_players = set (map nbaId (first_row # others)),
                           sl_team_id = bx_nbaTeamId first_row\<rparr>))
          (unique (map bx_team starters)))"

text \<open>
  \<open>_parse_substitutions\<close>: the events of type 8 with both player ids present;
  \<open>playerId1\<close> is the player coming in, \<open>playerId2\<close> the player going out.  Ordered by
  period, then by clock descending.
\<close>

definition parse_substitutions :: "pbp_row list \<Rightarrow> substitution list" where
  "parse_substitutions pbp_df =
     sort_key (\<lambda>s. (s_period s, - s_game_clock_seconds s))
       (List.map_filter
          (\<lambda>r. case (playerId1 r, playerId2 r) of
                 (Some p1, Some p2) \<Rightarrow>
                   Some \<lparr>s_period = period r, s_game_clock = gameClock r,
                         s_game_clock_seconds = gameClock_seconds r, s_team = team r,
                         player_in = p1, player_out = p2\<rparr>
               | _ \<Rightarrow> None)
          (filter (\<lambda>r. msgType r = 8) pbp_df))"

definition lineup_to_dict :: "int set \<Rightarrow> int list" where
  "lineup_to_dict lineup_set = sorted_list_of_set lineup_set"

type_synonym timeline_state = "(string \<times> int set) list \<times> lineup_row list"

text \<open>
  One turn of the substitution loop of \<open>_build_lineup_timeline\<close> on the state (current
  on-court sets, timeline so far).  \<open>current_lineups[team]\<close> raises \<open>KeyError\<close> for a team
  without a starting lineup.
\<close>

definition apply_substitution ::
  "(string \<times> int) list \<Rightarrow> timeline_state \<Rightarrow> substitution \<Rightarrow> py_error + timeline_state" where
  "apply_substitution team_ids st sub =
     (case st of (current_lineups, lineup_timeline) \<Rightarrow>
        (case s_team sub of
           None \<Rightarrow> Inl KeyError
         | Some team_label \<Rightarrow>
             (case map_of current_lineups team_label of
                None \<Rightarrow> Inl KeyError
              | Some lineup \<Rightarrow>
                  if player_out sub \<notin> lineup then Inr st
                  else if player_in sub \<in> lineup then Inr st
                  else
                    (case map_of team_ids team_label of
                       None \<Rightarrow> Inl KeyError
                     | Some tid \<Rightarrow>
                         let lineup' = insert (player_in sub) (lineup - {player_out sub})
                         in Inr (dict_set current_lineups team_label lineup',
                                 lineup_timeline @
                                   [\<lparr>ls_period = s_period sub, ls_game_clock = s_game_clock sub,
                                     game_clock_seconds = s_game_clock_seconds sub,
                                     ls_team = team_label, team_id = tid,
                                     ls_players = lineup_to_dict lineup'\<rparr>])))))"

text \<open>The rows that open a period: the current lineup of every team, at 12:00 or 05:00.\<close>

definition period_start_rows ::
  "(string \<times> int) list \<Rightarrow> (string \<times> int set) list \<Rightarrow> int \<Rightarrow> py_error + lineup_row list" where
  "period_start_rows team_ids current_lineups p =
     map_err (\<lambda>(team_label, lineup).
        case map_of team_ids team_label of
          None \<Rightarrow> Inl KeyError
        | Some tid \<Rightarrow>
            Inr \<lparr>ls_period = p, ls_game_clock = (if p \<le> 4 then ''12:00'' else ''05:00''),
                 game_clock_seconds = (if p \<le> 4 then 720 else 300),
                 ls_team = team_label, team_id = tid,
                 ls_players = lineup_to_dict lineup\<rparr>) current_lineups"

fun build_lineup_periods ::
  "(string \<times> int) list \<Rightarrow> substitution list \<Rightarrow> int list \<Rightarrow> timeline_state
     \<Rightarrow> py_error + timeline_state" where
  "build_lineup_periods team_ids substitutions [] st = Inr st"
| "build_lineup_periods team_ids substitutions (p # ps) st =
     (case st of (current_lineups, lineup_timeline) \<Rightarrow>
        (case period_start_rows team_ids current_lineups p of
           Inl e \<Rightarrow> Inl e
         | Inr start_rows \<Rightarrow>
             (case fold_err (apply_substitution team_ids)
                     (filter (\<lambda>s. s_period s = p) substitutions)
                     (current_lineups, lineup_timeline @ start_rows) of
                Inl e \<Rightarrow> Inl e
              | Inr st' \<Rightarrow> build_lineup_periods team_ids substitutions ps st')))"

definition build_lineup_timeline ::
  "(string \<times> starting_lineup) list \<Rightarrow> substitution list \<Rightarrow> pbp_row list
     \<Rightarrow> py_error + lineup_row list" where
  "build_lineup_timeline starting_lineups substitutions pbp_df =
     (let current_lineups = map (\<lambda>(t, sl). (t, sl_players sl)) starting_lineups;
          team_ids = map (\<lambda>(t, sl). (t, sl_team_id sl)) starting_lineups;
          periods = sorted_list_of_set (set (map period pbp_df))
      in case build_lineup_periods team_ids substitutions periods (current_lineups, []) of
           Inl e \<Rightarrow> Inl e
         | Inr (_, lineup_timeline) \<Rightarrow> Inr lineup_timeline)"

text \<open>\<open>_generate_lineup_id\<close>: the team label and the sorted player ids, joined by \<open>_\<close>.\<close>

function str_of_nat :: "nat \<Rightarrow> string" where
  "str_of_nat n =
     (if n < 10 then [''0123456789'' ! n]
      else str_of_nat (n div 10) @ [''0123456789'' ! (n mod 10)])"
  by pat_completeness auto
termination
  by (relation "measure id") auto

definition str_of_int :: "int \<Rightarrow> string" where
  "str_of_int i = (if i < 0 then CHR ''-'' # str_of_nat (nat (- i)) else str_of_nat (nat i))"

fun join_with :: "string \<Rightarrow> string list \<Rightarrow> string" where
  "join_with sep [] = []"
| "join_with sep [x] = x"
| "join_with sep (x # y # ys) = x @ sep @ join_with sep (y # ys)"

definition generate_lineup_id :: "lineup_row \<Rightarrow> string" where
  "generate_lineup_id row = ls_team row @ ''_'' @ join_with ''_'' (map str_of_int (sort (ls_players row)))"

text \<open>
  \<open>extract_lineup_states\<close>.  \<open>_generate_lineup_id\<close> reads the columns \<open>player_1\<close> \<dots>
  \<open>player_5\<close>.  A lineup has fewer than five players only when the five starter rows of a
  team repeat a player id; pandas then raises \<open>KeyError\<close> when no row has a fifth player and
  fills the missing columns with NaN otherwise.  The model returns an error in both cases,
  and also for an empty timeline (no team with starters, or no period), where the
  assignment of the \<open>lineup_id\<close> column or the final sort fails.
\<close>

definition extract_lineup_states ::
  "box_row list \<Rightarrow> pbp_row list \<Rightarrow> py_error + lineup_state list" where
  "extract_lineup_states box_score_df pbp_df =
     (case extract_starting_lineups box_score_df of
        Inl e \<Rightarrow> Inl e
      | Inr starting_lineups \<Rightarrow>
          (case build_lineup_timeline starting_lineups (parse_substitutions pbp_df) pbp_df of
             Inl e \<Rightarrow> Inl e
           | Inr lineup_states \<Rightarrow>
               if lineup_states = [] \<or> (\<exists>row \<in> set lineup_states. length (ls_players row) \<noteq> 5)
               then Inl KeyError
               else Inr (sort_key (\<lambda>row. (ls_team row, ls_period row, game_clock_seconds row))
                           (map (\<lambda>row. lineup_row.extend row
                                    (lineup_state.fields (generate_lineup_id row)))
                              lineup_states))))"

subsection \<open>The starter count\<close>

text \<open>
  The lineups pipeline rejects a box score in which a team with at least one starter row
  does not have exactly five of them.
\<close>

lemma map_err_raises:
  "x \<in> set xs \<Longrightarrow> f x = Inl e \<Longrightarrow> (\<forall>y \<in> set xs. \<forall>e'. f y = Inl e' \<longrightarrow> e' = e)
     \<Longrightarrow> map_err f xs = Inl e"
proof (induction xs)
  case Nil
  then show ?case by simp
next
  case (Cons a xs)
  show ?case
  proof (cases "f a")
    case (Inl e')
    moreover have "e' = e"
      using Cons.prems(3) Inl by simp
    ultimately show ?thesis by simp
  next
    case (Inr b)
    have "x \<noteq> a"
      using Inr Cons.prems(2) by auto
    then have mem: "x \<in> set xs"
      using Cons.prems(1) by simp
    have rest: "\<forall>y \<in> set xs. \<forall>e'. f y = Inl e' \<longrightarrow> e' = e"
      using Cons.prems(3) by simp
    have "map_err f xs = Inl e"
      by (rule Cons.IH [OF mem Cons.prems(2) rest])
    then show ?thesis using Inr by simp
  qed
qed

lemma set_unique [simp]: "set (unique xs) = set xs"
  by (simp add: unique_def)

definition is_starter :: "box_row \<Rightarrow> bool" where
  "is_starter r \<longleftrightarrow> (case startPos r of None \<Rightarrow> False | Some s \<Rightarrow> s \<noteq> [])"

lemma extract_lineup_states_rejects_wrong_starter_count:
  assumes "r \<in> set box_score_df" and "is_starter r"
    and "length (filter (\<lambda>q. is_starter q \<and> bx_team q = bx_team r) box_score_df) \<noteq> 5"
  shows "extract_lineup_states box_score_df pbp_df = Inl ValueError"
proof -
  define starters where "starters = filter is_starter box_score_df"
  define f where "f = (\<lambda>team_label.
            case filter (\<lambda>r. bx_team r = team_label) starters of
              [] \<Rightarrow> Inl IndexError
            | first_row # others \<Rightarrow>
                if length (first_row # others) \<noteq> 5 then Inl ValueError
                else Inr (team_label,
                          \<lparr>sl_players = set (map nbaId (first_row # others)),
                           sl_team_id = bx_nbaTeamId first_row\<rparr>))"
  have starters_eq: "filter (\<lambda>r. case startPos r of None \<Rightarrow> False | Some s \<Rightarrow> s \<noteq> []) box_score_df
                       = starters"
    unfolding starters_def is_starter_def by simp
  have run: "extract_starting_lineups box_score_df = map_err f (unique (map bx_team starters))"
    unfolding extract_starting_lineups_def Let_def starters_eq f_def by simp
  have r_st: "r \<in> set starters"
    using assms(1,2) by (simp add: starters_def)
  then have team_in: "bx_team r \<in> set (unique (map bx_team starters))"
    by simp
  have len: "length (filter (\<lambda>q. bx_team q = bx_team r) starters) \<noteq> 5"
    using assms(3) by (simp add: starters_def)
  obtain first_row others where
    cons: "filter (\<lambda>q. bx_team q = bx_team r) starters = first_row # others"
    using r_st by (cases "filter (\<lambda>q. bx_team q = bx_team r) starters")
                  (auto simp: filter_empty_conv)
  have bad: "f (bx_team r) = Inl ValueError"
    using len unfolding f_def cons by simp
  have only: "\<forall>y \<in> set (unique (map bx_team starters)). \<forall>e'. f y = Inl e' \<longrightarrow> e' = ValueError"
  proof (intro ballI allI impI)
    fix y e' assume that: "y \<in> set (unique (map bx_team starters))" "f y = Inl e'"
    have "filter (\<lambda>q. bx_team q = y) starters \<noteq> []"
      using that(1) by (auto simp: filter_empty_conv)
    then obtain a b where "filter (\<lambda>q. bx_team q = y) starters = a # b"
      by (cases "filter (\<lambda>q. bx_team q = y) starters") auto
    then show "e' = ValueError"
      using that(2) unfolding f_def by (simp split: if_splits)
  qed
  have "map_err f (unique (map bx_team starters)) = Inl ValueError"
    by (rule map_err_raises [OF team_in bad only])
  then show ?thesis
    by (simp add: extract_lineup_states_def run)
qed

subsection \<open>Skipped substitutions\<close>

lemma fold_err_append:
  "fold_err f (xs @ ys) st =
     (case fold_err f xs st of Inl e \<Rightarrow> Inl e | Inr st' \<Rightarrow> fold_err f ys st')"
  by (induction xs arbitrary: st) (auto split: sum.splits)

text \<open>
  Claim C9.  When a substitution of a known team fails validation (its outgoing player is
  not in the team's current on-court set, or its incoming player already is), the step of
  the timeline loop returns the state it was given: the same on-court sets, the same
  timeline rows, and no error.  Consequently a run of the loop over a list of substitutions
  that reaches that state just before the failing event gives the same result as the run
  over the list without the event.
\<close>

theorem invalid_substitution_is_skipped:
  assumes "s_team sub = Some team_label"
    and "map_of current_lineups team_label = Some lineup"
    and "player_out sub \<notin> lineup \<or> player_in sub \<in> lineup"
  shows "apply_substitution team_ids (current_lineups, lineup_timeline) sub
           = Inr (current_lineups, lineup_timeline)
       \<and> (\<forall>earlier later st.
             fold_err (apply_substitution team_ids) earlier st
               = Inr (current_lineups, lineup_timeline) \<longrightarrow>
             fold_err (apply_substitution team_ids) (earlier @ sub # later) st
               = fold_err (apply_substitution team_ids) (earlier @ later) st)"
proof -
  have step: "apply_substitution team_ids (current_lineups, lineup_timeline) sub
           = Inr (current_lineups, lineup_timeline)"
    using assms by (auto simp: apply_substitution_def)
  then show ?thesis
    by (simp add: fold_err_append)
qed

definition ex_team_ids :: "(string \<times> int) list" where
  "ex_team_ids = [(''HOU'', 1610612745)]"

definition ex_start_state :: timeline_state where
  "ex_start_state = ([(''HOU'', {101, 102, 103, 104, 105})], [])"

definition ex_good_sub :: substitution where
  "ex_good_sub = \<lparr>s_period = 1, s_game_clock = ''9:30'', s_game_clock_seconds = 570,
     s_team = Some ''HOU'', player_in = 106, player_out = 105\<rparr>"

definition ex_later_sub :: substitution where
  "ex_later_sub = \<lparr>s_period = 1, s_game_clock = ''8:00'', s_game_clock_seconds = 480,
     s_team = Some ''HOU'', player_in = 105, player_out = 101\<rparr>"

definition ex_after_state :: timeline_state where
  "ex_after_state =
     ([(''HOU'', {101, 102, 103, 104, 106})],
      [\<lparr>ls_period = 1, ls_game_clock = ''9:30'', game_clock_seconds = 570, ls_team = ''HOU'',
        team_id = 1610612745, ls_players = [101, 102, 103, 104, 106]\<rparr>])"

lemma ex_after_state_reached:
  "fold_err (apply_substitution ex_team_ids) [ex_good_sub] ex_start_state = Inr ex_after_state"
  by code_simp

theorem invalid_substitution_is_skipped_witness:
  "fold_err (apply_substitution ex_team_ids) [ex_good_sub] ex_start_state = Inr ex_after_state \<and>
   player_out ex_good_sub \<notin> {101, 102, 103, 104, 106} \<and>
   apply_substitution ex_team_ids ex_after_state ex_good_sub = Inr ex_after_state \<and>
   fold_err (apply_substitution ex_team_ids) ([ex_good_sub] @ ex_good_sub # [ex_later_sub])
       ex_start_state
     = fold_err (apply_substitution ex_team_ids) ([ex_good_sub] @ [ex_later_sub]) ex_start_state"
proof -
  have h1: "s_team ex_good_sub = Some ''HOU''"
    by (simp add: ex_good_sub_def)
  have h2: "map_of (fst ex_after_state) ''HOU'' = Some {101, 102, 103, 104, 106}"
    by (simp add: ex_after_state_def)
  have h3: "player_out ex_good_sub \<notin> {101, 102, 103, 104, 106}"
    by (simp add: ex_good_sub_def)
  have st: "ex_after_state = (fst ex_after_state, snd ex_after_state)"
    by simp
  note inst = invalid_substitution_is_skipped
    [OF h1 h2 disjI1 [OF h3], of ex_team_ids "snd ex_after_state"]
  have reached: "fold_err (apply_substitution ex_team_ids) [ex_good_sub] ex_start_state
                   = Inr (fst ex_after_state, snd ex_after_state)"
    using ex_after_state_reached by simp
  from inst have a: "apply_substitution ex_team_ids ex_after_state ex_good_sub = Inr ex_after_state"
    by simp
  from inst reached
  have b: "fold_err (apply_substitution ex_team_ids) ([ex_good_sub] @ ex_good_sub # [ex_later_sub])
       ex_start_state
     = fold_err (apply_substitution ex_team_ids) ([ex_good_sub] @ [ex_later_sub]) ex_start_state"
    by blast
  show ?thesis using ex_after_state_reached h3 a b by blast
qed

section \<open>Hybrid court-time tracking: \<open>players/transformers/court_time.py\<close>\<close>

text \<open>
  A row of the court-time table: one stay of a player on court.  The start clock is
  nullable because the game-start clock is the minimum over the rows of period 1, which
  is NaN when the table has no such row.
\<close>

record court_interval =
  iv_gameId :: string
  playerId :: int
  teamId :: int
  period_start :: int
  wallClock_start :: "int option"
  period_end :: int
  wallClock_end :: int

text \<open>
  A player activity (\<open>_get_player_activities\<close>), a status change of
  \<open>_build_hybrid_intervals\<close>, and an entry of the merged event list of
  \<open>_infer_reentries_from_activity\<close>.
\<close>

record activity =
  a_period :: int
  a_wallClockInt :: int
  a_playerId :: int
  a_msgType :: int

record status_change =
  sc_period :: int
  sc_wallClockInt :: "int option"
  sc_playerId :: int
  sc_teamId :: int
  action :: string
  source :: string

datatype timeline_event =
  Substitution_event int int int int
| Activity_event int int int int

fun ev_period :: "timeline_event \<Rightarrow> int" where
  "ev_period (Substitution_event p w player_out' player_in') = p"
| "ev_period (Activity_event p w player_id m) = p"

fun ev_wallClockInt :: "timeline_event \<Rightarrow> int" where
  "ev_wallClockInt (Substitution_event p w player_out' player_in') = w"
| "ev_wallClockInt (Activity_event p w player_id m) = w"

text \<open>
  \<open>_get_starting_lineups\<close>: per team id, the set of players with \<open>gs = 1\<close>.  The number of
  starters is not checked.
\<close>

definition get_starting_lineups :: "box_row list \<Rightarrow> (int \<times> int set) list" where
  "get_starting_lineups box_score_df =
     (let starters_df = filter (\<lambda>r. gs r = 1) box_score_df
      in map (\<lambda>tid. (tid, set (map nbaId (filter (\<lambda>r. bx_nbaTeamId r = tid) starters_df))))
           (unique (map bx_nbaTeamId starters_df)))"

definition get_team_mapping :: "box_row list \<Rightarrow> (int \<times> int) list" where
  "get_team_mapping box_score_df =
     foldl (\<lambda>d r. dict_set d (nbaId r) (bx_nbaTeamId r)) [] box_score_df"

definition get_substitution_events :: "pbp_row list \<Rightarrow> pbp_row list" where
  "get_substitution_events pbp_df =
     sort_key (\<lambda>r. (period r, wallClockInt r)) (filter (\<lambda>r. msgType r = 8) pbp_df)"

text \<open>
  \<open>_get_player_activities\<close>: one entry per player named in an event of type 1 to 7, ordered
  by period and wall clock.  Sorting the frame built from an empty list raises \<open>KeyError\<close>.
\<close>

definition get_player_activities :: "pbp_row list \<Rightarrow> py_error + activity list" where
  "get_player_activities pbp_df =
     (let activities = filter (\<lambda>r. msgType r \<in> set [1, 2, 3, 4, 5, 6, 7]) pbp_df;
          activity_list =
            concat (map (\<lambda>row.
                List.map_filter
                  (map_option (\<lambda>pid. \<lparr>a_period = period row, a_wallClockInt = wallClockInt row,
                                        a_playerId = pid, a_msgType = msgType row\<rparr>))
                  [playerId1 row, playerId2 row, playerId3 row]) activities)
      in if activity_list = [] then Inl KeyError
         else Inr (sort_key (\<lambda>a. (a_period a, a_wallClockInt a)) activity_list))"

text \<open>\<open>int(sub['playerId1'])\<close> and \<open>int(sub['playerId2'])\<close>: a missing id raises.\<close>

definition sub_players :: "pbp_row \<Rightarrow> py_error + (int \<times> int)" where
  "sub_players sub =
     (case playerId1 sub of
        None \<Rightarrow> Inl ValueError
      | Some p1 \<Rightarrow> (case playerId2 sub of None \<Rightarrow> Inl ValueError | Some p2 \<Rightarrow> Inr (p1, p2)))"

text \<open>\<open>team_mapping.get(p)\<close> followed by \<open>if team_id:\<close>: a missing or zero team id is skipped.\<close>

definition known_team :: "(int \<times> int) list \<Rightarrow> int \<Rightarrow> int option" where
  "known_team team_mapping p =
     (case map_of team_mapping p of
        Some t \<Rightarrow> if t \<noteq> 0 then Some t else None
      | None \<Rightarrow> None)"

text \<open>
  The status changes of one substitution event: \<open>playerId1\<close> is read as the player going
  out, \<open>playerId2\<close> as the player coming in.
\<close>

definition substitution_changes ::
  "(int \<times> int) list \<Rightarrow> pbp_row \<Rightarrow> py_error + status_change list" where
  "substitution_changes team_mapping sub =
     (case sub_players sub of
        Inl e \<Rightarrow> Inl e
      | Inr (player_out', player_in') \<Rightarrow>
          Inr ((case known_team team_mapping player_out' of
                  Some tid \<Rightarrow> [\<lparr>sc_period = period sub, sc_wallClockInt = Some (wallClockInt sub),
                                 sc_playerId = player_out', sc_teamId = tid,
                                 action = ''OUT'', source = ''substitution''\<rparr>]
                | None \<Rightarrow> [])
             @ (case known_team team_mapping player_in' of
                  Some tid \<Rightarrow> [\<lparr>sc_period = period sub, sc_wallClockInt = Some (wallClockInt sub),
                                 sc_playerId = player_in', sc_teamId = tid,
                                 action = ''IN'', source = ''substitution''\<rparr>]
                | None \<Rightarrow> [])))"

text \<open>
  \<open>_infer_reentries_from_activity\<close>: substitutions and activities merged in time order; an
  activity of a player whose status is \<open>OUT\<close> yields an inferred \<open>IN\<close>.
\<close>

fun infer_step ::
  "(int \<times> int) list \<Rightarrow> (int \<times> string) list \<times> status_change list \<Rightarrow> timeline_event
     \<Rightarrow> (int \<times> string) list \<times> status_change list" where
  "infer_step team_mapping (player_status, inferred_entries)
       (Substitution_event p w player_out' player_in') =
     (dict_set (dict_set player_status player_out' ''OUT'') player_in' ''IN'', inferred_entries)"
| "infer_step team_mapping (player_status, inferred_entries) (Activity_event p w player_id m) =
     (if map_of player_status player_id = Some ''OUT'' then
        (case known_team team_mapping player_id of
           Some tid \<Rightarrow>
             (dict_set player_status player_id ''IN'',
              inferred_entries @
                [\<lparr>sc_period = p, sc_wallClockInt = Some w, sc_playerId = player_id,
                  sc_teamId = tid, action = ''IN'', source = ''inferred_from_activity''\<rparr>])
         | None \<Rightarrow> (player_status, inferred_entries))
      else (player_status, inferred_entries))"

definition infer_reentries_from_activity ::
  "activity list \<Rightarrow> pbp_row list \<Rightarrow> (int \<times> int) list \<Rightarrow> py_error + status_change list" where
  "infer_reentries_from_activity activities substitutions team_mapping =
     (case map_err (\<lambda>sub. case sub_players sub of
                            Inl e \<Rightarrow> Inl e
                          | Inr (player_out', player_in') \<Rightarrow>
                              Inr (Substitution_event (period sub) (wallClockInt sub)
                                     player_out' player_in')) substitutions of
        Inl e \<Rightarrow> Inl e
      | Inr sub_events \<Rightarrow>
          let all_events = sub_events @
                map (\<lambda>a. Activity_event (a_period a) (a_wallClockInt a) (a_playerId a)
                            (a_msgType a)) activities;
              all_events_df = sort_key (\<lambda>e. (ev_period e, ev_wallClockInt e)) all_events
          in Inr (snd (foldl (infer_step team_mapping) ([], []) all_events_df)))"

type_synonym entry_times = "(int \<times> (int \<times> int option \<times> int)) list"

text \<open>
  \<open>_build_intervals_from_status_changes\<close>: \<open>START\<close> and \<open>IN\<close> record (or overwrite) the
  player's entry time; \<open>OUT\<close> of a player with an entry closes an interval and deletes the
  entry; entries left at the end are closed at the end of the game.
\<close>

definition interval_step ::
  "string \<Rightarrow> court_interval list \<times> entry_times \<Rightarrow> status_change
     \<Rightarrow> court_interval list \<times> entry_times" where
  "interval_step game_id st change =
     (case st of (intervals, player_entry_times) \<Rightarrow>
        if action change \<in> set [''START'', ''IN''] then
          (intervals,
           dict_set player_entry_times (sc_playerId change)
             (sc_period change, sc_wallClockInt change, sc_teamId change))
        else if action change = ''OUT'' then
          (case (map_of player_entry_times (sc_playerId change), sc_wallClockInt change) of
             (Some (entry_period, entry_wallClock, tid), Some out_wallClock) \<Rightarrow>
               (intervals @
                  [\<lparr>iv_gameId = game_id, playerId = sc_playerId change, teamId = tid,
                    period_start = entry_period, wallClock_start = entry_wallClock,
                    period_end = sc_period change, wallClock_end = out_wallClock\<rparr>],
                filter (\<lambda>(pid, _). pid \<noteq> sc_playerId change) player_entry_times)
           | _ \<Rightarrow> st)
        else st)"

definition build_intervals_from_status_changes ::
  "status_change list \<Rightarrow> string \<Rightarrow> int \<Rightarrow> court_interval list" where
  "build_intervals_from_status_changes status_df game_id game_end_wallClock =
     (case foldl (interval_step game_id) ([], []) status_df of
        (intervals, player_entry_times) \<Rightarrow>
          let max_period = Max (set (map sc_period status_df))
          in intervals @
               map (\<lambda>(player_id, (entry_period, entry_wallClock, tid)).
                      \<lparr>iv_gameId = game_id, playerId = player_id, teamId = tid,
                       period_start = entry_period, wallClock_start = entry_wallClock,
                       period_end = max_period, wallClock_end = game_end_wallClock\<rparr>)
                 player_entry_times)"

text \<open>
  The sort key of a nullable clock value: pandas sorts NaN after every number.
\<close>

definition nan_last :: "int option \<Rightarrow> int \<times> int" where
  "nan_last w = (case w of None \<Rightarrow> (1, 0) | Some x \<Rightarrow> (0, x))"

text \<open>
  \<open>_build_hybrid_intervals\<close>.  Status changes are ordered by period, wall clock and the
  action string (\<open>IN\<close> before \<open>OUT\<close> before \<open>START\<close>).
\<close>

definition build_hybrid_intervals ::
  "(int \<times> int set) list \<Rightarrow> (int \<times> int) list \<Rightarrow> pbp_row list \<Rightarrow> activity list
     \<Rightarrow> pbp_row list \<Rightarrow> py_error + court_interval list" where
  "build_hybrid_intervals starters team_mapping substitutions activities pbp_df =
     (case pbp_df of
        [] \<Rightarrow> Inl IndexError
      | first_row # _ \<Rightarrow>
          let game_id = gameId first_row;
              max_period = Max (set (map period pbp_df));
              period_1 = map wallClockInt (filter (\<lambda>r. period r = 1) pbp_df);
              game_start_wallClock = (if period_1 = [] then None else Some (Min (set period_1)));
              game_end_wallClock =
                Max (set (map wallClockInt (filter (\<lambda>r. period r = max_period) pbp_df)));
              starter_changes =
                concat (map (\<lambda>(tid, players).
                          map (\<lambda>player_id.
                                 \<lparr>sc_period = 1, sc_wallClockInt = game_start_wallClock,
                                  sc_playerId = player_id, sc_teamId = tid,
                                  action = ''START'', source = ''starter''\<rparr>)
                            (sorted_list_of_set players)) starters)
          in case map_err (substitution_changes team_mapping) substitutions of
               Inl e \<Rightarrow> Inl e
             | Inr sub_changes \<Rightarrow>
                 (case infer_reentries_from_activity activities substitutions team_mapping of
                    Inl e \<Rightarrow> Inl e
                  | Inr inferred_entries \<Rightarrow>
                      let status_changes = starter_changes @ concat sub_changes @ inferred_entries
                      in if status_changes = [] then Inl KeyError
                         else
                           Inr (build_intervals_from_status_changes
                                  (sort_key (\<lambda>c. (sc_period c, nan_last (sc_wallClockInt c),
                                                     action c)) status_changes)
                                  game_id game_end_wallClock)))"

definition track_lineup_states :: "box_row list \<Rightarrow> pbp_row list \<Rightarrow> py_error + court_interval list" where
  "track_lineup_states box_score_df pbp_df =
     (let starters = get_starting_lineups box_score_df;
          team_mapping = get_team_mapping box_score_df
      in case get_player_activities pbp_df of
           Inl e \<Rightarrow> Inl e
         | Inr activities \<Rightarrow>
             build_hybrid_intervals starters team_mapping (get_substitution_events pbp_df)
               activities pbp_df)"

section \<open>The two lineup builders on the same game\<close>

definition ex_box_score :: "box_row list" where
  "ex_box_score =
     [\<lparr>nbaId = 101, bx_name = ''Player1'', bx_team = ''HOU'', bx_nbaTeamId = 1610612745, startPos = Some ''PG'', gs = 1\<rparr>,
      \<lparr>nbaId = 102, bx_name = ''Player2'', bx_team = ''HOU'', bx_nbaTeamId = 1610612745, startPos = Some ''SG'', gs = 1\<rparr>,
      \<lparr>nbaId = 103, bx_name = ''Player3'', bx_team = ''HOU'', bx_nbaTeamId = 1610612745, startPos = Some ''SF'', gs = 1\<rparr>,
      \<lparr>nbaId = 104, bx_name = ''Player4'', bx_team = ''HOU'', bx_nbaTeamId = 1610612745, startPos = Some ''PF'', gs = 1\<rparr>,
      \<lparr>nbaId = 105, bx_name = ''Player5'', bx_team = ''HOU'', bx_nbaTeamId = 1610612745, startPos = Some ''C'', gs = 1\<rparr>,
      \<lparr>nbaId = 106, bx_name = ''Player6'', bx_team = ''HOU'', bx_nbaTeamId = 1610612745, startPos = None, gs = 0\<rparr>,
      \<lparr>nbaId = 201, bx_name = ''Player7'', bx_team = ''DAL'', bx_nbaTeamId = 1610612742, startPos = Some ''PG'', gs = 1\<rparr>,
      \<lparr>nbaId = 202, bx_name = ''Player8'', bx_team = ''DAL'', bx_nbaTeamId = 1610612742, startPos = Some ''SG'', gs = 1\<rparr>,
      \<lparr>nbaId = 203, bx_name = ''Player9'', bx_team = ''DAL'', bx_nbaTeamId = 1610612742, startPos = Some ''SF'', gs = 1\<rparr>,
      \<lparr>nbaId = 204, bx_name = ''Player10'', bx_team = ''DAL'', bx_nbaTeamId = 1610612742, startPos = Some ''PF'', gs = 1\<rparr>,
      \<lparr>nbaId = 205, bx_name = ''Player11'', bx_team = ''DAL'', bx_nbaTeamId = 1610612742, startPos = Some ''C'', gs = 1\<rparr>]"

definition ex_sub_pbp :: "pbp_row list" where
  "ex_sub_pbp =
     [blank_event\<lparr>gameClock := ''12:00'', gameClock_seconds := 720, wallClockInt := 1000,
        pbpOrder := 1, msgType := 10, team := Some ''HOU'', playerId1 := Some 101,
        playerId2 := Some 201\<rparr>,
      blank_event\<lparr>gameClock := ''9:30'', gameClock_seconds := 570, wallClockInt := 1100,
        pbpOrder := 2, msgType := 8, team := Some ''HOU'', playerId1 := Some 106,
        playerId2 := Some 105\<rparr>,
      blank_event\<lparr>gameClock := ''9:10'', gameClock_seconds := 550, wallClockInt := 1200,
        pbpOrder := 3, msgType := 1, team := Some ''HOU'', playerId1 := Some 101, pts := 2\<rparr>]"

definition ex_short_box_score :: "box_row list" where
  "ex_short_box_score = take 3 ex_box_score"

lemma ex_lineup_states_output:
  "extract_lineup_states ex_box_score ex_sub_pbp =
     Inr [\<lparr>ls_period = 1, ls_game_clock = ''12:00'', game_clock_seconds = 720, ls_team = ''DAL'',
           team_id = 1610612742, ls_players = [201, 202, 203, 204, 205],
           lineup_id = ''DAL_201_202_203_204_205''\<rparr>,
          \<lparr>ls_period = 1, ls_game_clock = ''9:30'', game_clock_seconds = 570, ls_team = ''HOU'',
           team_id = 1610612745, ls_players = [101, 102, 103, 104, 106],
           lineup_id = ''HOU_101_102_103_104_106''\<rparr>,
          \<lparr>ls_period = 1, ls_game_clock = ''12:00'', game_clock_seconds = 720, ls_team = ''HOU'',
           team_id = 1610612745, ls_players = [101, 102, 103, 104, 105],
           lineup_id = ''HOU_101_102_103_104_105''\<rparr>]"
  by code_simp

definition ex_interval :: "int \<Rightarrow> int \<Rightarrow> int \<Rightarrow> court_interval" where
  "ex_interval player tid start =
     \<lparr>iv_gameId = ''0022400001'', playerId = player, teamId = tid, period_start = 1,
      wallClock_start = Some start, period_end = 1, wallClock_end = 1200\<rparr>"

lemma ex_court_time_output:
  "track_lineup_states ex_box_score ex_sub_pbp =
     Inr [ex_interval 101 1610612745 1000, ex_interval 102 1610612745 1000,
          ex_interval 103 1610612745 1000, ex_interval 104 1610612745 1000,
          ex_interval 105 1610612745 1100,
          ex_interval 201 1610612742 1000, ex_interval 202 1610612742 1000,
          ex_interval 203 1610612742 1000, ex_interval 204 1610612742 1000,
          ex_interval 205 1610612742 1000]"
  by code_simp

lemma ex_short_lineup_states_output:
  "extract_lineup_states ex_short_box_score ex_sub_pbp = Inl ValueError"
  by code_simp

lemma ex_short_court_time_output:
  "track_lineup_states ex_short_box_score ex_sub_pbp =
     Inr [ex_interval 101 1610612745 1000, ex_interval 102 1610612745 1000,
          ex_interval 103 1610612745 1000]"
  by code_simp

text \<open>
  Claim C4 says that both builders abort when a team's designated starters are not exactly
  five.  \<open>_extract_starting_lineups\<close> of the lineups pipeline raises \<open>ValueError\<close> for a team
  with three starters; \<open>_get_starting_lineups\<close> of the players pipeline has no such check,
  and \<open>track_lineup_states\<close> returns court-time intervals for the three starters of the
  same box score.
\<close>

theorem short_starting_unit_not_rejected_by_court_time:
  "length (filter (\<lambda>r. gs r = 1 \<and> bx_team r = ''HOU'') ex_short_box_score) = 3 \<and>
   extract_lineup_states ex_short_box_score ex_sub_pbp = Inl ValueError \<and>
   track_lineup_states ex_short_box_score ex_sub_pbp =
     Inr [ex_interval 101 1610612745 1000, ex_interval 102 1610612745 1000,
          ex_interval 103 1610612745 1000]"
  by (simp add: ex_short_lineup_states_output ex_short_court_time_output)
     (simp add: ex_short_box_score_def ex_box_score_def)

text \<open>
  Claim C10 says that the two builders read a substitution event the same way.
  \<open>_parse_substitutions\<close> takes \<open>playerId1\<close> as the player coming in and \<open>playerId2\<close> as the
  player going out; \<open>_build_hybrid_intervals\<close> takes \<open>playerId1\<close> as the player going out and
  \<open>playerId2\<close> as the player coming in.  On the substitution event with \<open>playerId1 = 106\<close>
  (bench) and \<open>playerId2 = 105\<close> (starter), the lineup timeline puts 106 on court in place
  of 105, while the court-time intervals never have 106 on court and keep 105 on court
  from the substitution to the end of the game.
\<close>

theorem builders_disagree_on_substitution:
  "(\<exists>rows. extract_lineup_states ex_box_score ex_sub_pbp = Inr rows \<and>
      map ls_players (filter (\<lambda>r. ls_team r = ''HOU'' \<and> game_clock_seconds r = 570) rows)
        = [[101, 102, 103, 104, 106]]) \<and>
   (\<exists>intervals. track_lineup_states ex_box_score ex_sub_pbp = Inr intervals \<and>
      filter (\<lambda>iv. playerId iv = 106) intervals = [] \<and>
      filter (\<lambda>iv. playerId iv = 105) intervals = [ex_interval 105 1610612745 1100])"
  by (simp add: ex_lineup_states_output ex_court_time_output ex_interval_def)

section \<open>Interval attribution join: \<open>lineups/transformers/lineup_possessions.py\<close>\<close>

definition find_lineup_at_time ::
  "lineup_state list \<Rightarrow> int \<Rightarrow> int \<Rightarrow> int \<Rightarrow> lineup_state option" where
  "find_lineup_at_time lineups_df per time_seconds tid =
     (let team_lineups = filter (\<lambda>r. team_id r = tid \<and> ls_period r = per) lineups_df
      in if team_lineups = [] then None
         else
           let team_sorted = sort_desc game_clock_seconds team_lineups;
               active_lineups = filter (\<lambda>r. game_clock_seconds r \<ge> time_seconds) team_sorted
           in if active_lineups = [] then Some (last team_sorted)
              else Some (last active_lineups))"

subsection \<open>Facts about the descending sort\<close>

lemma set_sort_desc: "set (sort_desc f xs) = set xs"
  by (simp add: sort_desc_def)

lemma sort_desc_Nil_iff: "sort_desc f xs = [] \<longleftrightarrow> xs = []"
  by (metis set_sort_desc set_empty)

lemma sorted_rev_last_le:
  "sorted (rev (map f ys)) \<Longrightarrow> y \<in> set ys \<Longrightarrow> f (last ys) \<le> f y"
proof (induction ys rule: rev_induct)
  case Nil
  then show ?case by simp
next
  case (snoc x xs)
  then show ?case by (auto simp: rev_map)
qed

lemma last_sort_desc_le:
  assumes "y \<in> set xs"
  shows "f (last (sort_desc f xs)) \<le> f y"
proof -
  have "sorted (rev (map f (sort_desc f xs)))"
    by (simp add: sort_desc_def rev_map)
  moreover have "y \<in> set (sort_desc f xs)"
    using assms by (simp add: set_sort_desc)
  ultimately show ?thesis by (rule sorted_rev_last_le)
qed

text \<open>
  Claim C2.  Whenever the lineup-states table holds at least one row for the probed
  team and period, \<open>find_lineup_at_time\<close> returns a row of that team and period (never
  \<open>None\<close>); and when the probe time precedes every recorded state of that team and period
  (the clock counts down, so the probe's seconds-remaining value is larger than every
  recorded one), the row returned is the chronologically last one: no row of that team
  and period has a smaller seconds-remaining value.
\<close>

theorem find_lineup_at_time_resolves:
  assumes "\<exists>r \<in> set lineups_df. team_id r = tid \<and> ls_period r = per"
  shows "\<exists>r. find_lineup_at_time lineups_df per time_seconds tid = Some r
            \<and> r \<in> set lineups_df \<and> team_id r = tid \<and> ls_period r = per
            \<and> ((\<forall>r' \<in> set lineups_df. team_id r' = tid \<and> ls_period r' = per
                    \<longrightarrow> game_clock_seconds r' < time_seconds)
                 \<longrightarrow> (\<forall>r' \<in> set lineups_df. team_id r' = tid \<and> ls_period r' = per
                    \<longrightarrow> game_clock_seconds r \<le> game_clock_seconds r'))"
proof -
  define tl where "tl = filter (\<lambda>r. team_id r = tid \<and> ls_period r = per) lineups_df"
  define ts where "ts = sort_desc game_clock_seconds tl"
  define act where "act = filter (\<lambda>r. game_clock_seconds r \<ge> time_seconds) ts"
  have tl_ne: "tl \<noteq> []"
    using assms by (auto simp: tl_def filter_empty_conv)
  have ts_ne: "ts \<noteq> []"
    using tl_ne by (simp add: ts_def sort_desc_Nil_iff)
  have set_ts: "set ts = set tl"
    by (simp add: ts_def set_sort_desc)
  have res: "find_lineup_at_time lineups_df per time_seconds tid
               = Some (if act = [] then last ts else last act)"
    using tl_ne by (simp add: find_lineup_at_time_def Let_def tl_def ts_def act_def)
  show ?thesis
  proof (cases "act = []")
    case True
    have mem: "last ts \<in> set tl"
      using ts_ne set_ts last_in_set by blast
    have least: "game_clock_seconds (last ts) \<le> game_clock_seconds r'" if "r' \<in> set tl" for r'
      using that unfolding ts_def by (rule last_sort_desc_le)
    show ?thesis
      using True res mem least by (auto simp: tl_def)
  next
    case False
    have "last act \<in> set act"
      using False by simp
    then have mem: "last act \<in> set tl" and ge: "game_clock_seconds (last act) \<ge> time_seconds"
      using set_ts by (auto simp: act_def)
    show ?thesis
      using False res mem ge by (fastforce simp: tl_def)
  qed
qed

subsection \<open>A concrete lineup-states table\<close>

definition ex_lineup_states :: "lineup_state list" where
  "ex_lineup_states =
     [\<lparr>ls_period = 1, ls_game_clock = ''12:00'', game_clock_seconds = 720, ls_team = ''HOU'',
       team_id = 1610612745, ls_players = [101, 102, 103, 104, 105],
       lineup_id = ''HOU_101_102_103_104_105''\<rparr>,
      \<lparr>ls_period = 1, ls_game_clock = ''9:30'', game_clock_seconds = 570, ls_team = ''HOU'',
       team_id = 1610612745, ls_players = [101, 102, 103, 104, 106],
       lineup_id = ''HOU_101_102_103_104_106''\<rparr>,
      \<lparr>ls_period = 1, ls_game_clock = ''12:00'', game_clock_seconds = 720, ls_team = ''DAL'',
       team_id = 1610612742, ls_players = [201, 202, 203, 204, 205],
       lineup_id = ''DAL_201_202_203_204_205''\<rparr>]"

theorem find_lineup_at_time_resolves_witness:
  "(\<exists>r \<in> set ex_lineup_states. team_id r = 1610612745 \<and> ls_period r = 1)
   \<and> (\<exists>r. find_lineup_at_time ex_lineup_states 1 800 1610612745 = Some r
          \<and> r \<in> set ex_lineup_states \<and> game_clock_seconds r = 570)"
proof -
  have h: "\<exists>r \<in> set ex_lineup_states. team_id r = 1610612745 \<and> ls_period r = 1"
    by (simp add: ex_lineup_states_def)
  have pre: "\<forall>r' \<in> set ex_lineup_states. team_id r' = 1610612745 \<and> ls_period r' = 1
               \<longrightarrow> game_clock_seconds r' < 800"
    by (simp add: ex_lineup_states_def)
  from find_lineup_at_time_resolves [OF h, of 800]
  obtain r where r: "find_lineup_at_time ex_lineup_states 1 800 1610612745 = Some r"
      "r \<in> set ex_lineup_states" "team_id r = 1610612745" "ls_period r = 1"
      "\<forall>r' \<in> set ex_lineup_states. team_id r' = 1610612745 \<and> ls_period r' = 1
          \<longrightarrow> game_clock_seconds r \<le> game_clock_seconds r'"
    using pre by blast
  from r(2-5) have "game_clock_seconds r = 570"
    by (auto simp: ex_lineup_states_def)
  with h r(1,2) show ?thesis by blast
qed

section \<open>Lineup ratings: \<open>lineups/transformers/lineup_ratings.py\<close>\<close>

text \<open>
  A row of the attributed possession table, with the columns the ratings read.
  \<open>off_players\<close> stands for the five columns \<open>off_player_1\<close> \<dots> \<open>off_player_5\<close>, and
  \<open>def_players\<close> for \<open>def_player_1\<close> \<dots> \<open>def_player_5\<close>.  Ratings are floating-point numbers
  in the code and exact rationals here.
\<close>

record lineup_possession =
  lp_possession_id :: int
  lp_points_scored :: int
  lp_off_team :: string
  lp_def_team :: string
  off_players :: "int list"
  def_players :: "int list"

type_synonym lineup_key = "string \<times> int list"

text \<open>
  A row of the outer join of the two groupings, the same row with its ratings, and a row
  of the final table (which drops the points columns).
\<close>

record lineup_stat =
  c_team :: string
  c_lineup_players :: "int list"
  c_off_poss :: int
  c_off_points :: int
  c_def_poss :: int
  c_def_points_allowed :: int

record rated_lineup = lineup_stat +
  c_off_rating :: rat
  c_def_rating :: rat
  c_net_rating :: rat

record rating_row =
  rt_team :: string
  rt_players :: "int list"
  off_poss :: int
  def_poss :: int
  off_rating :: rat
  def_rating :: rat
  net_rating :: rat

definition off_key :: "lineup_possession \<Rightarrow> lineup_key" where
  "off_key r = (lp_off_team r, sort (off_players r))"

definition def_key :: "lineup_possession \<Rightarrow> lineup_key" where
  "def_key r = (lp_def_team r, sort (def_players r))"

text \<open>
  \<open>groupby(keys).agg({'possession_id': 'count', 'points_scored': 'sum'})\<close>: one row per
  distinct key, in key order, with the number of rows of the group and the sum of their
  points.
\<close>

definition group_stats ::
  "(lineup_possession \<Rightarrow> lineup_key) \<Rightarrow> lineup_possession list \<Rightarrow> (lineup_key \<times> int \<times> int) list" where
  "group_stats key_of df =
     map (\<lambda>k. (k, int (length (filter (\<lambda>r. key_of r = k) df)),
                  sum_list (map lp_points_scored (filter (\<lambda>r. key_of r = k) df))))
       (sorted_list_of_set (set (map key_of df)))"

definition calculate_offensive_stats :: "lineup_possession list \<Rightarrow> (lineup_key \<times> int \<times> int) list" where
  "calculate_offensive_stats df = group_stats off_key df"

definition calculate_defensive_stats :: "lineup_possession list \<Rightarrow> (lineup_key \<times> int \<times> int) list" where
  "calculate_defensive_stats df = group_stats def_key df"

text \<open>
  \<open>pd.merge(off_stats, def_stats, on=['team', 'lineup_players'], how='outer').fillna(0)\<close>:
  one row per key of either side, in key order, a missing side filled with 0.
\<close>

definition combine_offensive_defensive_stats ::
  "(lineup_key \<times> int \<times> int) list \<Rightarrow> (lineup_key \<times> int \<times> int) list \<Rightarrow> lineup_stat list" where
  "combine_offensive_defensive_stats off_stats def_stats =
     map (\<lambda>k.
            let off = (case map_of off_stats k of Some v \<Rightarrow> v | None \<Rightarrow> (0, 0));
                dfn = (case map_of def_stats k of Some v \<Rightarrow> v | None \<Rightarrow> (0, 0))
            in \<lparr>c_team = fst k, c_lineup_players = snd k,
                c_off_poss = fst off, c_off_points = snd off,
                c_def_poss = fst dfn, c_def_points_allowed = snd dfn\<rparr>)
       (sorted_list_of_set (set (map fst off_stats) \<union> set (map fst def_stats)))"

text \<open>\<open>Series.round(1)\<close>: to one decimal place, a tie going to the even digit.\<close>

definition round_half_even :: "rat \<Rightarrow> int" where
  "round_half_even x =
     (let f = \<lfloor>x\<rfloor>; d = x - of_int f
      in if d < 1 / 2 then f else if d > 1 / 2 then f + 1 else if even f then f else f + 1)"

definition round1 :: "rat \<Rightarrow> rat" where
  "round1 x = of_int (round_half_even (x * 10)) / 10"

text \<open>\<open>np.where(poss > 0, (points / poss) * 100, 0)\<close>.\<close>

definition per_100 :: "int \<Rightarrow> int \<Rightarrow> rat" where
  "per_100 points poss = (if poss > 0 then (of_int points / of_int poss) * 100 else 0)"

definition calculate_final_ratings :: "lineup_stat list \<Rightarrow> rated_lineup list" where
  "calculate_final_ratings df =
     map (\<lambda>r.
            let off_raw = per_100 (c_off_points r) (c_off_poss r);
                def_raw = per_100 (c_def_points_allowed r) (c_def_poss r);
                net_raw = off_raw - def_raw
            in lineup_stat.extend r
                 (rated_lineup.fields (round1 off_raw) (round1 def_raw) (round1 net_raw))) df"

text \<open>
  \<open>clean_final_output\<close>: the final columns, ordered by team ascending, then offensive
  possessions descending, then net rating descending.
\<close>

definition clean_final_output :: "rated_lineup list \<Rightarrow> rating_row list" where
  "clean_final_output df =
     sort_key (\<lambda>r. (rt_team r, - off_poss r, - net_rating r))
       (map (\<lambda>r. \<lparr>rt_team = c_team r, rt_players = c_lineup_players r,
                   off_poss = c_off_poss r, def_poss = c_def_poss r,
                   off_rating = c_off_rating r, def_rating = c_def_rating r,
                   net_rating = c_net_rating r\<rparr>) df)"

definition calculate_lineup_ratings :: "lineup_possession list \<Rightarrow> rating_row list" where
  "calculate_lineup_ratings lineup_possessions_df =
     (if lineup_possessions_df = [] then []
      else clean_final_output (calculate_final_ratings
             (combine_offensive_defensive_stats
                (calculate_offensive_stats lineup_possessions_df)
                (calculate_defensive_stats lineup_possessions_df))))"

subsection \<open>Grouping and the outer join\<close>

lemma keys_group_stats:
  "map fst (group_stats key_of df) = sorted_list_of_set (set (map key_of df))"
  by (simp add: group_stats_def comp_def)

lemma map_of_group_stats:
  "map_of (group_stats key_of df) k =
     (if k \<in> set (map key_of df)
      then Some (int (length (filter (\<lambda>r. key_of r = k) df)),
                 sum_list (map lp_points_scored (filter (\<lambda>r. key_of r = k) df)))
      else None)"
  by (simp add: group_stats_def map_of_map_restrict restrict_map_def)

lemma filter_key_empty:
  "k \<notin> set (map key_of df) \<Longrightarrow> filter (\<lambda>r. key_of r = k) df = []"
  by (auto simp: filter_empty_conv)

definition stat_of_key :: "lineup_possession list \<Rightarrow> lineup_key \<Rightarrow> lineup_stat" where
  "stat_of_key df k =
     \<lparr>c_team = fst k, c_lineup_players = snd k,
      c_off_poss = int (length (filter (\<lambda>r. off_key r = k) df)),
      c_off_points = sum_list (map lp_points_scored (filter (\<lambda>r. off_key r = k) df)),
      c_def_poss = int (length (filter (\<lambda>r. def_key r = k) df)),
      c_def_points_allowed = sum_list (map lp_points_scored (filter (\<lambda>r. def_key r = k) df))\<rparr>"

lemma combine_eq:
  "combine_offensive_defensive_stats (calculate_offensive_stats df) (calculate_defensive_stats df)
     = map (stat_of_key df)
         (sorted_list_of_set (set (map off_key df) \<union> set (map def_key df)))"
proof -
  have row: "(let off = (case map_of (group_stats off_key df) k of Some v \<Rightarrow> v | None \<Rightarrow> (0, 0));
                dfn = (case map_of (group_stats def_key df) k of Some v \<Rightarrow> v | None \<Rightarrow> (0, 0))
            in \<lparr>c_team = fst k, c_lineup_players = snd k,
                c_off_poss = fst off, c_off_points = snd off,
                c_def_poss = fst dfn, c_def_points_allowed = snd dfn\<rparr>) = stat_of_key df k" for k
    by (simp add: map_of_group_stats stat_of_key_def filter_key_empty Let_def)
  show ?thesis
    unfolding combine_offensive_defensive_stats_def calculate_offensive_stats_def
      calculate_defensive_stats_def keys_group_stats row
    by simp
qed

definition rating_of_stat :: "lineup_stat \<Rightarrow> rating_row" where
  "rating_of_stat c =
     \<lparr>rt_team = c_team c, rt_players = c_lineup_players c,
      off_poss = c_off_poss c, def_poss = c_def_poss c,
      off_rating = round1 (per_100 (c_off_points c) (c_off_poss c)),
      def_rating = round1 (per_100 (c_def_points_allowed c) (c_def_poss c)),
      net_rating = round1 (per_100 (c_off_points c) (c_off_poss c)
                           - per_100 (c_def_points_allowed c) (c_def_poss c))\<rparr>"

lemma clean_final_eq:
  "clean_final_output (calculate_final_ratings cs) =
     sort_key (\<lambda>r. (rt_team r, - off_poss r, - net_rating r)) (map rating_of_stat cs)"
proof -
  have "(\<lambda>r. \<lparr>rt_team = c_team r, rt_players = c_lineup_players r,
                   off_poss = c_off_poss r, def_poss = c_def_poss r,
                   off_rating = c_off_rating r, def_rating = c_def_rating r,
                   net_rating = c_net_rating r\<rparr>) (lineup_stat.extend c
                 (rated_lineup.fields (round1 (per_100 (c_off_points c) (c_off_poss c)))
                    (round1 (per_100 (c_def_points_allowed c) (c_def_poss c)))
                    (round1 (per_100 (c_off_points c) (c_off_poss c)
                             - per_100 (c_def_points_allowed c) (c_def_poss c)))))
        = rating_of_stat c" for c
    by (simp add: rating_of_stat_def lineup_stat.defs rated_lineup.defs)
  then show ?thesis
    by (simp add: clean_final_output_def calculate_final_ratings_def comp_def Let_def)
qed

lemma ratings_eq:
  "calculate_lineup_ratings df =
     sort_key (\<lambda>r. (rt_team r, - off_poss r, - net_rating r))
       (map (\<lambda>k. rating_of_stat (stat_of_key df k))
          (sorted_list_of_set (set (map off_key df) \<union> set (map def_key df))))"
proof (cases "df = []")
  case True
  then show ?thesis by (simp add: calculate_lineup_ratings_def)
next
  case False
  then show ?thesis
    by (simp add: calculate_lineup_ratings_def clean_final_eq combine_eq comp_def)
qed

lemma rating_key [simp]:
  "(rt_team (rating_of_stat (stat_of_key df k)), rt_players (rating_of_stat (stat_of_key df k))) = k"
  by (simp add: rating_of_stat_def stat_of_key_def)

lemma ratings_keys_set:
  "set (map (\<lambda>r. (rt_team r, rt_players r)) (calculate_lineup_ratings df))
     = set (map off_key df) \<union> set (map def_key df)"
proof -
  let ?ks = "sorted_list_of_set (set (map off_key df) \<union> set (map def_key df))"
  have "map (\<lambda>r. (rt_team r, rt_players r)) (map (\<lambda>k. rating_of_stat (stat_of_key df k)) ?ks) = ?ks"
    by (simp add: comp_def)
  then have "set (map (\<lambda>r. (rt_team r, rt_players r))
                (map (\<lambda>k. rating_of_stat (stat_of_key df k)) ?ks)) = set ?ks"
    by simp
  then show ?thesis
    unfolding ratings_eq by (simp del: map_map)
qed

lemma ratings_keys_distinct:
  "distinct (map (\<lambda>r. (rt_team r, rt_players r)) (calculate_lineup_ratings df))"
proof -
  let ?ks = "sorted_list_of_set (set (map off_key df) \<union> set (map def_key df))"
  let ?rows = "map (\<lambda>k. rating_of_stat (stat_of_key df k)) ?ks"
  have "map (\<lambda>r. (rt_team r, rt_players r)) ?rows = ?ks"
    by (simp add: comp_def)
  then have d: "distinct (map (\<lambda>r. (rt_team r, rt_players r)) ?rows)"
    by simp
  then have "distinct ?rows" "inj_on (\<lambda>r. (rt_team r, rt_players r)) (set ?rows)"
    by (simp_all only: distinct_map)
  then show ?thesis
    unfolding ratings_eq by (simp only: distinct_map distinct_sort set_sort)
qed

lemma ratings_row:
  assumes "r \<in> set (calculate_lineup_ratings df)"
  shows "r = rating_of_stat (stat_of_key df (rt_team r, rt_players r))"
proof -
  from assms obtain k where "r = rating_of_stat (stat_of_key df k)"
    unfolding ratings_eq by auto
  then show ?thesis by simp
qed


text \<open>
  Claim C5.  The output of \<open>calculate_lineup_ratings\<close> has exactly one row for every unit
  (team label with sorted players) that occurs on the offensive or on the defensive side of
  some possession, and no other row.  In each row the possession counts are the numbers of
  possessions with that unit on offense and on defense, so a unit that never occurs on one
  side has count and points 0 there; the offensive rating is points per possession times
  100 (0 without possessions), the defensive rating likewise from the points allowed, and
  the net rating is their difference, each of the three rounded to one decimal place (the
  net rating is rounded from the difference of the unrounded ratings, as the code
  computes it before rounding).
\<close>

theorem calculate_lineup_ratings_rows:
  "distinct (map (\<lambda>r. (rt_team r, rt_players r)) (calculate_lineup_ratings df)) \<and>
   set (map (\<lambda>r. (rt_team r, rt_players r)) (calculate_lineup_ratings df))
     = set (map off_key df) \<union> set (map def_key df) \<and>
   (\<forall>r \<in> set (calculate_lineup_ratings df).
      let k = (rt_team r, rt_players r);
          offs = filter (\<lambda>p. off_key p = k) df;
          defs = filter (\<lambda>p. def_key p = k) df;
          off_points = sum_list (map lp_points_scored offs);
          def_points_allowed = sum_list (map lp_points_scored defs);
          off_raw = (if off_poss r > 0 then of_int off_points / of_int (off_poss r) * 100 else 0);
          def_raw = (if def_poss r > 0
                     then of_int def_points_allowed / of_int (def_poss r) * 100 else 0)
      in off_poss r = int (length offs) \<and> def_poss r = int (length defs) \<and>
         (k \<notin> set (map off_key df) \<longrightarrow> off_poss r = 0 \<and> off_points = 0) \<and>
         (k \<notin> set (map def_key df) \<longrightarrow> def_poss r = 0 \<and> def_points_allowed = 0) \<and>
         off_rating r = round1 off_raw \<and> def_rating r = round1 def_raw \<and>
         net_rating r = round1 (off_raw - def_raw))"
proof (intro conjI ballI)
  show "distinct (map (\<lambda>r. (rt_team r, rt_players r)) (calculate_lineup_ratings df))"
    by (rule ratings_keys_distinct)
  show "set (map (\<lambda>r. (rt_team r, rt_players r)) (calculate_lineup_ratings df))
     = set (map off_key df) \<union> set (map def_key df)"
    by (rule ratings_keys_set)
next
  fix r assume "r \<in> set (calculate_lineup_ratings df)"
  then have r: "r = rating_of_stat (stat_of_key df (rt_team r, rt_players r))"
    by (rule ratings_row)
  define k where "k = (rt_team r, rt_players r)"
  have fields: "off_poss r = int (length (filter (\<lambda>p. off_key p = k) df))"
    "def_poss r = int (length (filter (\<lambda>p. def_key p = k) df))"
    "off_rating r = round1 (per_100 (sum_list (map lp_points_scored (filter (\<lambda>p. off_key p = k) df)))
                              (off_poss r))"
    "def_rating r = round1 (per_100 (sum_list (map lp_points_scored (filter (\<lambda>p. def_key p = k) df)))
                              (def_poss r))"
    "net_rating r = round1 (per_100 (sum_list (map lp_points_scored (filter (\<lambda>p. off_key p = k) df)))
                              (off_poss r)
                            - per_100 (sum_list (map lp_points_scored (filter (\<lambda>p. def_key p = k) df)))
                              (def_poss r))"
    using arg_cong [OF r, of off_poss] arg_cong [OF r, of def_poss]
      arg_cong [OF r, of off_rating] arg_cong [OF r, of def_rating]
      arg_cong [OF r, of net_rating]
    unfolding k_def [symmetric] by (simp_all add: rating_of_stat_def stat_of_key_def)
  have zero: "k \<notin> set (map off_key df) \<longrightarrow> filter (\<lambda>p. off_key p = k) df = []"
    "k \<notin> set (map def_key df) \<longrightarrow> filter (\<lambda>p. def_key p = k) df = []"
    by (simp_all add: filter_key_empty)
  show "let k = (rt_team r, rt_players r);
          offs = filter (\<lambda>p. off_key p = k) df;
          defs = filter (\<lambda>p. def_key p = k) df;
          off_points = sum_list (map lp_points_scored offs);
          def_points_allowed = sum_list (map lp_points_scored defs);
          off_raw = (if off_poss r > 0 then of_int off_points / of_int (off_poss r) * 100 else 0);
          def_raw = (if def_poss r > 0
                     then of_int def_points_allowed / of_int (def_poss r) * 100 else 0)
      in off_poss r = int (length offs) \<and> def_poss r = int (length defs) \<and>
         (k \<notin> set (map off_key df) \<longrightarrow> off_poss r = 0 \<and> off_points = 0) \<and>
         (k \<notin> set (map def_key df) \<longrightarrow> def_poss r = 0 \<and> def_points_allowed = 0) \<and>
         off_rating r = round1 off_raw \<and> def_rating r = round1 def_raw \<and>
         net_rating r = round1 (off_raw - def_raw)"
    unfolding Let_def k_def [symmetric]
    using fields zero by (simp add: per_100_def)
qed


subsection \<open>A concrete rating table\<close>

definition ex_lineup_possessions :: "lineup_possession list" where
  "ex_lineup_possessions =
     [\<lparr>lp_possession_id = 1, lp_points_scored = 2, lp_off_team = ''HOU'', lp_def_team = ''DAL'',
       off_players = [101, 102, 103, 104, 105], def_players = [201, 202, 203, 204, 205]\<rparr>,
      \<lparr>lp_possession_id = 2, lp_points_scored = 0, lp_off_team = ''DAL'', lp_def_team = ''HOU'',
       off_players = [201, 202, 203, 204, 205], def_players = [105, 104, 103, 102, 101]\<rparr>,
      \<lparr>lp_possession_id = 3, lp_points_scored = 3, lp_off_team = ''HOU'', lp_def_team = ''DAL'',
       off_players = [101, 102, 103, 104, 106], def_players = [201, 202, 203, 204, 205]\<rparr>,
      \<lparr>lp_possession_id = 4, lp_points_scored = 0, lp_off_team = ''HOU'', lp_def_team = ''DAL'',
       off_players = [101, 102, 103, 104, 105], def_players = [201, 202, 203, 204, 205]\<rparr>,
      \<lparr>lp_possession_id = 5, lp_points_scored = 0, lp_off_team = ''HOU'', lp_def_team = ''DAL'',
       off_players = [101, 102, 103, 104, 105], def_players = [201, 202, 203, 204, 205]\<rparr>]"


definition ex_rating_row :: rating_row where
  "ex_rating_row =
     \<lparr>rt_team = ''HOU'', rt_players = [101, 102, 103, 104, 106], off_poss = 1, def_poss = 0,
      off_rating = 300, def_rating = 0, net_rating = 300\<rparr>"

lemma ex_ratings_output:
  "calculate_lineup_ratings ex_lineup_possessions =
     [\<lparr>rt_team = ''DAL'', rt_players = [201, 202, 203, 204, 205], off_poss = 1, def_poss = 4,
       off_rating = 0, def_rating = 125, net_rating = - 125\<rparr>,
      \<lparr>rt_team = ''HOU'', rt_players = [101, 102, 103, 104, 105], off_poss = 3, def_poss = 1,
       off_rating = 667 / 10, def_rating = 0, net_rating = 667 / 10\<rparr>,
      ex_rating_row]"
  by code_simp

lemma ex_rating_row_offense_only:
  "(rt_team ex_rating_row, rt_players ex_rating_row) \<notin> set (map def_key ex_lineup_possessions)"
  by code_simp

theorem calculate_lineup_ratings_rows_witness:
  "ex_rating_row \<in> set (calculate_lineup_ratings ex_lineup_possessions) \<and>
   (rt_team ex_rating_row, rt_players ex_rating_row) \<notin> set (map def_key ex_lineup_possessions) \<and>
   def_poss ex_rating_row = 0 \<and>
   off_poss ex_rating_row
     = int (length (filter (\<lambda>p. off_key p = (''HOU'', [101, 102, 103, 104, 106]))
                      ex_lineup_possessions)) \<and>
   distinct (map (\<lambda>r. (rt_team r, rt_players r)) (calculate_lineup_ratings ex_lineup_possessions))"
proof -
  have mem: "ex_rating_row \<in> set (calculate_lineup_ratings ex_lineup_possessions)"
    by (simp add: ex_ratings_output)
  have key: "(rt_team ex_rating_row, rt_players ex_rating_row) = (''HOU'', [101, 102, 103, 104, 106])"
    by (simp add: ex_rating_row_def)
  note inst = calculate_lineup_ratings_rows [of ex_lineup_possessions]
  from inst have d: "distinct (map (\<lambda>r. (rt_team r, rt_players r))
                        (calculate_lineup_ratings ex_lineup_possessions))"
    by blast
  from inst mem have row:
    "let k = (rt_team ex_rating_row, rt_players ex_rating_row);
          offs = filter (\<lambda>p. off_key p = k) ex_lineup_possessions;
          defs = filter (\<lambda>p. def_key p = k) ex_lineup_possessions;
          off_points = sum_list (map lp_points_scored offs);
          def_points_allowed = sum_list (map lp_points_scored defs);
          off_raw = (if off_poss ex_rating_row > 0
                     then of_int off_points / of_int (off_poss ex_rating_row) * 100 else 0);
          def_raw = (if def_poss ex_rating_row > 0
                     then of_int def_points_allowed / of_int (def_poss ex_rating_row) * 100 else 0)
      in off_poss ex_rating_row = int (length offs) \<and> def_poss ex_rating_row = int (length defs) \<and>
         (k \<notin> set (map off_key ex_lineup_possessions)
            \<longrightarrow> off_poss ex_rating_row = 0 \<and> off_points = 0) \<and>
         (k \<notin> set (map def_key ex_lineup_possessions)
            \<longrightarrow> def_poss ex_rating_row = 0 \<and> def_points_allowed = 0) \<and>
         off_rating ex_rating_row = round1 off_raw \<and> def_rating ex_rating_row = round1 def_raw \<and>
         net_rating ex_rating_row = round1 (off_raw - def_raw)"
    by blast
  then have "def_poss ex_rating_row = 0"
    using ex_rating_row_offense_only unfolding Let_def by blast
  moreover from row have "off_poss ex_rating_row
     = int (length (filter (\<lambda>p. off_key p = (''HOU'', [101, 102, 103, 104, 106]))
                      ex_lineup_possessions))"
    unfolding Let_def key by blast
  ultimately show ?thesis
    using mem ex_rating_row_offense_only d by blast
qed

section \<open>Rim defense on/off tracking: \<open>players/transformers/rim_defense.py\<close>\<close>

text \<open>
  The counters of one player (\<open>player_stats[player_id]\<close>: makes and attempts on court and off
  court, and the team), and a row of the result table.
\<close>

record player_stat =
  on_makes :: int
  on_attempts :: int
  off_makes :: int
  off_attempts :: int
  st_teamId :: int

record rim_row =
  rr_playerId :: int
  rr_teamId :: int
  rim_fgm_on :: int
  rim_fga_on :: int
  rim_fgm_off :: int
  rim_fga_off :: int
  rim_fg_pct_on :: "rat option"
  rim_fg_pct_off :: "rat option"
  rim_fg_pct_diff :: "rat option"

text \<open>\<open>_get_player_team_mapping\<close>: the team of the last interval row of each player.\<close>

definition get_player_team_mapping :: "court_interval list \<Rightarrow> (int \<times> int) list" where
  "get_player_team_mapping lineup_intervals =
     foldl (\<lambda>player_teams interval. dict_set player_teams (playerId interval) (teamId interval))
       [] lineup_intervals"

definition new_player_stat :: "int \<Rightarrow> player_stat" where
  "new_player_stat defensive_team =
     \<lparr>on_makes = 0, on_attempts = 0, off_makes = 0, off_attempts = 0, st_teamId = defensive_team\<rparr>"

text \<open>
  The body of the loop over the defending team's players, for one shot: the counters are
  created at zero when the player is new, then one bucket is incremented.
\<close>

definition update_player ::
  "bool \<Rightarrow> int list \<Rightarrow> int \<Rightarrow> (int \<times> player_stat) list \<Rightarrow> int \<Rightarrow> (int \<times> player_stat) list" where
  "update_player shot_made defending_players defensive_team player_stats player_id =
     (let st = (case map_of player_stats player_id of
                  None \<Rightarrow> new_player_stat defensive_team
                | Some s \<Rightarrow> s);
          st' = (if player_id \<in> set defending_players
                 then st\<lparr>on_attempts := on_attempts st + 1,
                         on_makes := (if shot_made then on_makes st + 1 else on_makes st)\<rparr>
                 else st\<lparr>off_attempts := off_attempts st + 1,
                         off_makes := (if shot_made then off_makes st + 1 else off_makes st)\<rparr>)
      in dict_set player_stats player_id st')"

text \<open>
  The interval test of \<open>_calculate_rim_defense_stats\<close>; a comparison with a missing start
  clock is false.
\<close>

definition on_court_at :: "pbp_row \<Rightarrow> court_interval \<Rightarrow> bool" where
  "on_court_at shot iv \<longleftrightarrow>
     period_start iv \<le> period shot \<and> period_end iv \<ge> period shot \<and>
     (case wallClock_start iv of None \<Rightarrow> False | Some w \<Rightarrow> w \<le> wallClockInt shot) \<and>
     wallClock_end iv \<ge> wallClockInt shot"

text \<open>One turn of the loop over the rim shots; a shot with a missing team id is skipped.\<close>

definition process_shot ::
  "court_interval list \<Rightarrow> (int \<times> int) list \<Rightarrow> (int \<times> player_stat) list \<Rightarrow> pbp_row
     \<Rightarrow> (int \<times> player_stat) list" where
  "process_shot lineup_intervals player_teams player_stats shot =
     (case (offTeamId shot, defTeamId shot) of
        (Some offensive_team, Some defensive_team) \<Rightarrow>
          let shot_made = (msgType shot = 1);
              players_on_court = filter (on_court_at shot) lineup_intervals;
              defending_players =
                map playerId (filter (\<lambda>iv. teamId iv = defensive_team) players_on_court);
              defensive_team_players =
                map fst (filter (\<lambda>(pid, tid). tid = defensive_team) player_teams)
          in foldl (update_player shot_made defending_players defensive_team)
               player_stats defensive_team_players
      | _ \<Rightarrow> player_stats)"

text \<open>
  The result row of a player.  The percentages divide by the attempts with 0 replaced by
  1; the differential is taken from these values, and only afterwards are the two
  percentages blanked where the attempts are 0.
\<close>

definition rim_result_row :: "int \<times> player_stat \<Rightarrow> rim_row" where
  "rim_result_row = (\<lambda>(player_id, stats).
     let pct_on = of_int (on_makes stats)
                    / of_int (if on_attempts stats = 0 then 1 else on_attempts stats);
         pct_off = of_int (off_makes stats)
                    / of_int (if off_attempts stats = 0 then 1 else off_attempts stats)
     in \<lparr>rr_playerId = player_id, rr_teamId = st_teamId stats,
         rim_fgm_on = on_makes stats, rim_fga_on = on_attempts stats,
         rim_fgm_off = off_makes stats, rim_fga_off = off_attempts stats,
         rim_fg_pct_on = (if on_attempts stats > 0 then Some pct_on else None),
         rim_fg_pct_off = (if off_attempts stats > 0 then Some pct_off else None),
         rim_fg_pct_diff = Some (pct_on - pct_off)\<rparr>)"

text \<open>
  \<open>_calculate_rim_defense_stats\<close>.  With no player counted at all the result frame has no
  columns and reading \<open>rim_fgm_on\<close> raises \<open>KeyError\<close>.
\<close>

definition calculate_rim_defense_stats ::
  "pbp_row list \<Rightarrow> court_interval list \<Rightarrow> (int \<times> int) list \<Rightarrow> py_error + rim_row list" where
  "calculate_rim_defense_stats rim_shots lineup_intervals player_teams =
     (let player_stats = foldl (process_shot lineup_intervals player_teams) [] rim_shots
      in if player_stats = [] then Inl KeyError
         else Inr (map rim_result_row player_stats))"

definition track_rim_defense ::
  "pbp_row list \<Rightarrow> court_interval list \<Rightarrow> py_error + rim_row list" where
  "track_rim_defense enhanced_pbp_df lineup_intervals =
     (let rim_shots = filter is_rim_shot enhanced_pbp_df;
          player_teams = get_player_team_mapping lineup_intervals
      in calculate_rim_defense_stats rim_shots lineup_intervals player_teams)"


lemma distinct_player_team_mapping: "distinct (map fst (get_player_team_mapping ivs))"
  unfolding get_player_team_mapping_def by (rule distinct_foldl_dict_set) simp

definition stat_or_new :: "(int \<times> player_stat) list \<Rightarrow> int \<Rightarrow> int \<Rightarrow> player_stat" where
  "stat_or_new player_stats tid player_id =
     (case map_of player_stats player_id of None \<Rightarrow> new_player_stat tid | Some s \<Rightarrow> s)"

definition bump :: "bool \<Rightarrow> bool \<Rightarrow> player_stat \<Rightarrow> player_stat" where
  "bump on_court shot_made st =
     (if on_court
      then st\<lparr>on_attempts := on_attempts st + 1,
              on_makes := (if shot_made then on_makes st + 1 else on_makes st)\<rparr>
      else st\<lparr>off_attempts := off_attempts st + 1,
              off_makes := (if shot_made then off_makes st + 1 else off_makes st)\<rparr>)"

lemma map_of_update_player:
  "map_of (update_player m dp tid stats q) =
     (map_of stats)(q \<mapsto> bump (q \<in> set dp) m (stat_or_new stats tid q))"
  by (simp add: update_player_def map_of_dict_set bump_def stat_or_new_def Let_def)

lemma map_of_foldl_update_player:
  "distinct ps \<Longrightarrow>
   map_of (foldl (update_player m dp tid) stats ps) p =
     (if p \<in> set ps then Some (bump (p \<in> set dp) m (stat_or_new stats tid p))
      else map_of stats p)"
proof (induction ps arbitrary: stats)
  case Nil
  then show ?case by simp
next
  case (Cons q qs)
  then show ?case
    by (auto simp: map_of_update_player stat_or_new_def)
qed

lemma team_players_iff:
  assumes "distinct (map fst pt)"
  shows "p \<in> set (map fst (filter (\<lambda>(pid, tid). tid = t) pt)) \<longleftrightarrow> map_of pt p = Some t"
  using assms by (induction pt) (auto simp: image_iff)

lemma distinct_team_players:
  "distinct (map fst pt) \<Longrightarrow> distinct (map fst (filter (\<lambda>(pid, tid). tid = t) pt))"
  by (simp add: distinct_map_filter)

definition defenders_on_court :: "court_interval list \<Rightarrow> pbp_row \<Rightarrow> int \<Rightarrow> int list" where
  "defenders_on_court lineup_intervals shot defensive_team =
     map playerId (filter (\<lambda>iv. teamId iv = defensive_team)
                      (filter (on_court_at shot) lineup_intervals))"

lemma map_of_process_shot:
  assumes "distinct (map fst pt)"
  shows "map_of (process_shot ivs pt stats shot) p =
     (case (offTeamId shot, defTeamId shot) of
        (Some ot, Some dt) \<Rightarrow>
          if map_of pt p = Some dt
          then Some (bump (p \<in> set (defenders_on_court ivs shot dt)) (msgType shot = 1)
                       (stat_or_new stats dt p))
          else map_of stats p
      | _ \<Rightarrow> map_of stats p)"
proof (cases "offTeamId shot")
  case None
  then show ?thesis by (simp add: process_shot_def)
next
  case (Some ot)
  show ?thesis
  proof (cases "defTeamId shot")
    case None
    then show ?thesis using Some by (simp add: process_shot_def)
  next
    case (Some dt)
    have "map_of (process_shot ivs pt stats shot) p =
        map_of (foldl (update_player (msgType shot = 1) (defenders_on_court ivs shot dt) dt)
                  stats (map fst (filter (\<lambda>(pid, tid). tid = dt) pt))) p"
      using \<open>offTeamId shot = Some ot\<close> Some
      by (simp add: process_shot_def defenders_on_court_def Let_def)
    also have "\<dots> = (if map_of pt p = Some dt
          then Some (bump (p \<in> set (defenders_on_court ivs shot dt)) (msgType shot = 1)
                       (stat_or_new stats dt p))
          else map_of stats p)"
      using map_of_foldl_update_player [OF distinct_team_players [OF assms]]
            team_players_iff [OF assms] by simp
    finally show ?thesis
      using \<open>offTeamId shot = Some ot\<close> Some by simp
  qed
qed


definition shots_against :: "int \<Rightarrow> pbp_row list \<Rightarrow> pbp_row list" where
  "shots_against tid shots =
     filter (\<lambda>s. offTeamId s \<noteq> None \<and> defTeamId s = Some tid) shots"

lemma distinct_update_player:
  "distinct (map fst stats) \<Longrightarrow> distinct (map fst (update_player m dp tid stats q))"
  by (simp add: update_player_def Let_def distinct_dict_set)

lemma distinct_foldl_update_player:
  "distinct (map fst stats) \<Longrightarrow> distinct (map fst (foldl (update_player m dp tid) stats ps))"
  by (induction ps arbitrary: stats) (simp_all add: distinct_update_player)

lemma distinct_process_shot:
  "distinct (map fst stats) \<Longrightarrow> distinct (map fst (process_shot ivs pt stats shot))"
  by (auto simp: process_shot_def Let_def distinct_foldl_update_player split: option.splits)

lemma distinct_foldl_process_shot:
  "distinct (map fst stats) \<Longrightarrow> distinct (map fst (foldl (process_shot ivs pt) stats shots))"
  by (induction shots arbitrary: stats) (simp_all add: distinct_process_shot)

definition stats_inv :: "(int \<times> int) list \<Rightarrow> pbp_row list \<Rightarrow> (int \<times> player_stat) list \<Rightarrow> bool" where
  "stats_inv pt shots stats \<longleftrightarrow>
     (\<forall>p. case map_of stats p of
            None \<Rightarrow> (\<forall>t. map_of pt p = Some t \<longrightarrow> shots_against t shots = [])
          | Some st \<Rightarrow> map_of pt p = Some (st_teamId st) \<and>
              on_attempts st + off_attempts st = int (length (shots_against (st_teamId st) shots)))"

lemma bump_teamId [simp]: "st_teamId (bump c m st) = st_teamId st"
  by (simp add: bump_def)

lemma bump_attempts [simp]:
  "on_attempts (bump c m st) + off_attempts (bump c m st) = on_attempts st + off_attempts st + 1"
  by (simp add: bump_def)

lemma shots_against_snoc:
  "shots_against t (xs @ [x]) =
     (if offTeamId x \<noteq> None \<and> defTeamId x = Some t then shots_against t xs @ [x]
      else shots_against t xs)"
  by (simp add: shots_against_def)

lemma stats_inv_step:
  assumes d: "distinct (map fst pt)" and inv: "stats_inv pt xs stats"
  shows "stats_inv pt (xs @ [x]) (process_shot ivs pt stats x)"
  unfolding stats_inv_def
proof
  fix p
  note mp = map_of_process_shot [OF d, of ivs stats x p]
  have ih: "case map_of stats p of
            None \<Rightarrow> (\<forall>t. map_of pt p = Some t \<longrightarrow> shots_against t xs = [])
          | Some st \<Rightarrow> map_of pt p = Some (st_teamId st) \<and>
              on_attempts st + off_attempts st = int (length (shots_against (st_teamId st) xs))"
    using inv unfolding stats_inv_def by blast
  show "case map_of (process_shot ivs pt stats x) p of
            None \<Rightarrow> (\<forall>t. map_of pt p = Some t \<longrightarrow> shots_against t (xs @ [x]) = [])
          | Some st \<Rightarrow> map_of pt p = Some (st_teamId st) \<and>
              on_attempts st + off_attempts st
                = int (length (shots_against (st_teamId st) (xs @ [x])))"
  proof (cases "offTeamId x \<noteq> None \<and> defTeamId x \<noteq> None")
    case False
    then have same: "map_of (process_shot ivs pt stats x) p = map_of stats p"
      using mp by (auto split: option.splits)
    have "shots_against t (xs @ [x]) = shots_against t xs" for t
      using False by (auto simp: shots_against_snoc)
    then show ?thesis using ih same by (auto split: option.splits)
  next
    case True
    then obtain ot dt where x: "offTeamId x = Some ot" "defTeamId x = Some dt" by auto
    show ?thesis
    proof (cases "map_of pt p = Some dt")
      case True
      have new: "map_of (process_shot ivs pt stats x) p =
          Some (bump (p \<in> set (defenders_on_court ivs x dt)) (msgType x = 1)
                  (stat_or_new stats dt p))"
        using mp x True by simp
      show ?thesis
      proof (cases "map_of stats p")
        case None
        then have "shots_against dt xs = []" using ih True by simp
        then show ?thesis
          using new None True x
          by (simp add: stat_or_new_def new_player_stat_def shots_against_snoc)
      next
        case (Some st)
        then have "st_teamId st = dt"
          and "on_attempts st + off_attempts st = int (length (shots_against dt xs))"
          using ih True by auto
        then show ?thesis
          using new Some True x by (simp add: stat_or_new_def shots_against_snoc)
      qed
    next
      case False
      then have same: "map_of (process_shot ivs pt stats x) p = map_of stats p"
        using mp x by simp
      have "shots_against t (xs @ [x]) = shots_against t xs" if "map_of pt p = Some t" for t
        using that False x by (auto simp: shots_against_snoc)
      then show ?thesis using ih same by (auto split: option.splits)
    qed
  qed
qed

lemma stats_inv_foldl:
  assumes "distinct (map fst pt)"
  shows "stats_inv pt shots (foldl (process_shot ivs pt) [] shots)"
proof (induction shots rule: rev_induct)
  case Nil
  show ?case by (simp add: stats_inv_def shots_against_def)
next
  case (snoc x xs)
  then show ?case using stats_inv_step [OF assms] by simp
qed


lemma rim_rows_from_stats:
  assumes "track_rim_defense pbp ivs = Inr rows" and "r \<in> set rows"
  shows "\<exists>p st. map_of (foldl (process_shot ivs (get_player_team_mapping ivs)) []
                          (filter is_rim_shot pbp)) p = Some st
           \<and> r = rim_result_row (p, st)"
proof -
  define stats where
    "stats = foldl (process_shot ivs (get_player_team_mapping ivs)) [] (filter is_rim_shot pbp)"
  have rows: "rows = map rim_result_row stats"
    using assms(1)
    by (auto simp: track_rim_defense_def calculate_rim_defense_stats_def Let_def stats_def
             split: if_splits)
  then obtain p st where "(p, st) \<in> set stats" and r: "r = rim_result_row (p, st)"
    using assms(2) by auto
  moreover have "distinct (map fst stats)"
    unfolding stats_def by (rule distinct_foldl_process_shot) simp
  ultimately have "map_of stats p = Some st" by simp
  then show ?thesis using r unfolding stats_def by blast
qed

definition ex_rim_intervals :: "court_interval list" where
  "ex_rim_intervals =
     [\<lparr>iv_gameId = ''0022400001'', playerId = 201, teamId = 1610612742, period_start = 1,
       wallClock_start = Some 950, period_end = 1, wallClock_end = 1450\<rparr>,
      \<lparr>iv_gameId = ''0022400001'', playerId = 203, teamId = 1610612742, period_start = 1,
       wallClock_start = Some 1250, period_end = 1, wallClock_end = 1450\<rparr>]"

definition ex_rim_shot :: pbp_row where
  "ex_rim_shot = blank_event\<lparr>wallClockInt := 1000, msgType := 1,
     offTeamId := Some 1610612745, defTeamId := Some 1610612742, playerId1 := Some 101,
     pts := 2, is_rim_shot := True\<rparr>"

text \<open>
  Claim C6.  For every rim shot whose offensive and defensive teams are known and every
  player that the player-team mapping assigns to the defending team, processing the shot
  adds one attempt (and, for a made shot, one make) to exactly one of the player's two
  buckets and leaves the other bucket as it was: the on-court bucket when an interval of
  the player covers the shot, the off-court bucket otherwise.  Consequently, in every row
  of the output of \<open>track_rim_defense\<close>, \<open>rim_fga_on + rim_fga_off\<close> is the number of rim
  shots with known teams taken against the team of that row, which is the team the
  mapping assigns to the player.
\<close>

theorem rim_defense_exactly_one_bucket:
  "(\<forall>stats shot ot dt p.
      offTeamId shot = Some ot \<and> defTeamId shot = Some dt \<and>
      map_of (get_player_team_mapping lineup_intervals) p = Some dt \<longrightarrow>
      (\<exists>st st'.
         st = (case map_of stats p of None \<Rightarrow> new_player_stat dt | Some s \<Rightarrow> s) \<and>
         map_of (process_shot lineup_intervals (get_player_team_mapping lineup_intervals)
                   stats shot) p = Some st' \<and>
         ((on_attempts st' = on_attempts st + 1 \<and>
           on_makes st' = on_makes st + (if msgType shot = 1 then 1 else 0) \<and>
           off_attempts st' = off_attempts st \<and> off_makes st' = off_makes st)
          \<or>
          (off_attempts st' = off_attempts st + 1 \<and>
           off_makes st' = off_makes st + (if msgType shot = 1 then 1 else 0) \<and>
           on_attempts st' = on_attempts st \<and> on_makes st' = on_makes st))))
   \<and>
   (\<forall>rows r.
      track_rim_defense enhanced_pbp_df lineup_intervals = Inr rows \<and> r \<in> set rows \<longrightarrow>
      map_of (get_player_team_mapping lineup_intervals) (rr_playerId r) = Some (rr_teamId r) \<and>
      rim_fga_on r + rim_fga_off r =
        int (length (shots_against (rr_teamId r) (filter is_rim_shot enhanced_pbp_df))))"
proof (rule conjI; intro allI; rule impI)
  fix stats and shot :: pbp_row and ot dt p
  assume h: "offTeamId shot = Some ot \<and> defTeamId shot = Some dt \<and>
      map_of (get_player_team_mapping lineup_intervals) p = Some dt"
  have "map_of (process_shot lineup_intervals (get_player_team_mapping lineup_intervals)
                   stats shot) p
        = Some (bump (p \<in> set (defenders_on_court lineup_intervals shot dt)) (msgType shot = 1)
                  (stat_or_new stats dt p))"
    using map_of_process_shot [OF distinct_player_team_mapping, of lineup_intervals
        lineup_intervals stats shot p] h
    by simp
  then show "\<exists>st st'.
         st = (case map_of stats p of None \<Rightarrow> new_player_stat dt | Some s \<Rightarrow> s) \<and>
         map_of (process_shot lineup_intervals (get_player_team_mapping lineup_intervals)
                   stats shot) p = Some st' \<and>
         ((on_attempts st' = on_attempts st + 1 \<and>
           on_makes st' = on_makes st + (if msgType shot = 1 then 1 else 0) \<and>
           off_attempts st' = off_attempts st \<and> off_makes st' = off_makes st)
          \<or>
          (off_attempts st' = off_attempts st + 1 \<and>
           off_makes st' = off_makes st + (if msgType shot = 1 then 1 else 0) \<and>
           on_attempts st' = on_attempts st \<and> on_makes st' = on_makes st))"
    by (simp add: bump_def stat_or_new_def)
next
  fix rows r
  assume h: "track_rim_defense enhanced_pbp_df lineup_intervals = Inr rows \<and> r \<in> set rows"
  define pt where "pt = get_player_team_mapping lineup_intervals"
  define shots where "shots = filter is_rim_shot enhanced_pbp_df"
  obtain p st where st: "map_of (foldl (process_shot lineup_intervals pt) [] shots) p = Some st"
    and r: "r = rim_result_row (p, st)"
    using rim_rows_from_stats h unfolding pt_def shots_def by blast
  have "stats_inv pt shots (foldl (process_shot lineup_intervals pt) [] shots)"
    unfolding pt_def by (rule stats_inv_foldl [OF distinct_player_team_mapping])
  then have "case map_of (foldl (process_shot lineup_intervals pt) [] shots) p of
            None \<Rightarrow> (\<forall>t. map_of pt p = Some t \<longrightarrow> shots_against t shots = [])
          | Some st \<Rightarrow> map_of pt p = Some (st_teamId st) \<and>
              on_attempts st + off_attempts st = int (length (shots_against (st_teamId st) shots))"
    unfolding stats_inv_def by (rule spec)
  then have "map_of pt p = Some (st_teamId st) \<and>
      on_attempts st + off_attempts st = int (length (shots_against (st_teamId st) shots))"
    by (simp add: st)
  then show "map_of (get_player_team_mapping lineup_intervals) (rr_playerId r)
               = Some (rr_teamId r) \<and>
      rim_fga_on r + rim_fga_off r =
        int (length (shots_against (rr_teamId r) (filter is_rim_shot enhanced_pbp_df)))"
    by (simp add: r rim_result_row_def Let_def pt_def shots_def)
qed

lemma ex_rim_mapping:
  "get_player_team_mapping ex_rim_intervals = [(201, 1610612742), (203, 1610612742)]"
  by (simp add: get_player_team_mapping_def ex_rim_intervals_def)

lemma ex_rim_output:
  "track_rim_defense [ex_rim_shot] ex_rim_intervals =
     Inr [\<lparr>rr_playerId = 201, rr_teamId = 1610612742, rim_fgm_on = 1, rim_fga_on = 1,
           rim_fgm_off = 0, rim_fga_off = 0, rim_fg_pct_on = Some 1, rim_fg_pct_off = None,
           rim_fg_pct_diff = Some 1\<rparr>,
          \<lparr>rr_playerId = 203, rr_teamId = 1610612742, rim_fgm_on = 0, rim_fga_on = 0,
           rim_fgm_off = 1, rim_fga_off = 1, rim_fg_pct_on = None, rim_fg_pct_off = Some 1,
           rim_fg_pct_diff = Some (- 1)\<rparr>]"
  by code_simp


theorem rim_defense_exactly_one_bucket_witness:
  "offTeamId ex_rim_shot = Some 1610612745 \<and> defTeamId ex_rim_shot = Some 1610612742 \<and>
   map_of (get_player_team_mapping ex_rim_intervals) 203 = Some 1610612742 \<and>
   (\<exists>st'. map_of (process_shot ex_rim_intervals (get_player_team_mapping ex_rim_intervals)
                    [] ex_rim_shot) 203 = Some st'
          \<and> on_attempts st' + off_attempts st' = 1 \<and> on_makes st' + off_makes st' = 1) \<and>
   (\<exists>rows r. track_rim_defense [ex_rim_shot] ex_rim_intervals = Inr rows \<and> r \<in> set rows \<and>
       rr_playerId r = 201 \<and> rim_fga_on r + rim_fga_off r = 1)"
proof -
  have shot: "offTeamId ex_rim_shot = Some 1610612745 \<and> defTeamId ex_rim_shot = Some 1610612742"
    by (simp add: ex_rim_shot_def blank_event_def)
  have made: "msgType ex_rim_shot = 1"
    by (simp add: ex_rim_shot_def blank_event_def)
  have team: "map_of (get_player_team_mapping ex_rim_intervals) 203 = Some 1610612742"
    by (simp add: ex_rim_mapping)
  note inst = rim_defense_exactly_one_bucket [of ex_rim_intervals "[ex_rim_shot]"]
  from inst shot team
  have "\<exists>st st'.
         st = (case map_of [] (203::int) of None \<Rightarrow> new_player_stat 1610612742 | Some s \<Rightarrow> s) \<and>
         map_of (process_shot ex_rim_intervals (get_player_team_mapping ex_rim_intervals)
                   [] ex_rim_shot) 203 = Some st' \<and>
         ((on_attempts st' = on_attempts st + 1 \<and>
           on_makes st' = on_makes st + (if msgType ex_rim_shot = 1 then 1 else 0) \<and>
           off_attempts st' = off_attempts st \<and> off_makes st' = off_makes st)
          \<or>
          (off_attempts st' = off_attempts st + 1 \<and>
           off_makes st' = off_makes st + (if msgType ex_rim_shot = 1 then 1 else 0) \<and>
           on_attempts st' = on_attempts st \<and> on_makes st' = on_makes st))"
    by blast
  then have part1: "\<exists>st'. map_of (process_shot ex_rim_intervals
                    (get_player_team_mapping ex_rim_intervals) [] ex_rim_shot) 203 = Some st'
          \<and> on_attempts st' + off_attempts st' = 1 \<and> on_makes st' + off_makes st' = 1"
    using made by (auto simp: new_player_stat_def)
  define r where "r = \<lparr>rr_playerId = 201, rr_teamId = 1610612742, rim_fgm_on = 1, rim_fga_on = 1,
           rim_fgm_off = 0, rim_fga_off = 0, rim_fg_pct_on = Some 1, rim_fg_pct_off = None,
           rim_fg_pct_diff = Some 1\<rparr>"
  obtain rows where rows: "track_rim_defense [ex_rim_shot] ex_rim_intervals = Inr rows"
    and mem: "r \<in> set rows"
    using ex_rim_output unfolding r_def by simp
  have cnt: "length (shots_against (rr_teamId r) (filter is_rim_shot [ex_rim_shot])) = 1"
    by (simp add: r_def shots_against_def ex_rim_shot_def blank_event_def)
  from inst rows mem
  have "rim_fga_on r + rim_fga_off r =
        int (length (shots_against (rr_teamId r) (filter is_rim_shot [ex_rim_shot])))"
    by blast
  then have "rim_fga_on r + rim_fga_off r = 1" using cnt by simp
  moreover have "rr_playerId r = 201" by (simp add: r_def)
  ultimately have part2: "\<exists>rows r. track_rim_defense [ex_rim_shot] ex_rim_intervals = Inr rows \<and>
       r \<in> set rows \<and> rr_playerId r = 201 \<and> rim_fga_on r + rim_fga_off r = 1"
    using rows mem by blast
  show ?thesis using shot team part1 part2 by blast
qed

text \<open>
  Claim C1 says that the differential \<open>rim_fg_pct_diff\<close> is null whenever a bucket has no
  attempts.  The code computes the differential from the two percentages before it
  blanks them (with a zero attempt count replaced by 1 in the denominator), and never
  blanks the differential.  For one made rim shot against the team of player 201, who is
  on court, the row of player 201 has no off-court attempt and a null off-court
  percentage, but its differential is the number 1, not null.
\<close>

theorem rim_defense_diff_not_null_without_off_attempts:
  "\<exists>rows. track_rim_defense [ex_rim_shot] ex_rim_intervals = Inr rows \<and>
     (\<exists>r \<in> set rows. rr_playerId r = 201 \<and> rim_fga_on r = 1 \<and> rim_fga_off r = 0 \<and>
        rim_fg_pct_on r = Some 1 \<and> rim_fg_pct_off r = None \<and> rim_fg_pct_diff r = Some 1)"
  by (simp add: ex_rim_output)
end
